theory Spec2Isabelle
  imports Main "HOL-Library.AList"
begin

section \<open>JavaScript values\<close>

text \<open>
  The activity store of the repository is JavaScript: rows of the sheet, activity objects
  and request bodies are dynamically typed, and the code leans on truthiness, on
  \<^verbatim>\<open>===\<close>, on \<^verbatim>\<open>String\<close>, \<^verbatim>\<open>parseInt\<close> and \<^verbatim>\<open>parseFloat\<close>. The embedding keeps
  the dynamic typing: every cell, field and argument is a \<open>jsval\<close>.

  Numbers are exact decimals \<open>Dec m e\<close> (the value \<open>m * 10 ^ e\<close>) in normal form
  (\<open>m\<close> not divisible by ten, zero as \<open>Dec 0 0\<close>), with \<open>NaN\<close> and the two infinities.
  Every finite double is such a decimal (the one its shortest decimal text denotes);
  the rounding of longer digit strings to 53 bits is left out, and so is the sign of
  zero, which none of the modelled operations can observe. Strings are lists of code
  units below 256.
\<close>

datatype jsnum = NaN | PosInf | NegInf | Dec int int

datatype jsval =
    JUndefined
  | JNull
  | JBool bool
  | JNum jsnum
  | JStr string
  | JArr "jsval list"
  | JObj "(string \<times> jsval) list"

subsection \<open>Numbers\<close>

function norm_dec :: "int \<Rightarrow> int \<Rightarrow> jsnum" where
  "norm_dec m e =
     (if m = 0 then Dec 0 0
      else if m mod 10 = 0 then norm_dec (m div 10) (e + 1)
      else Dec m e)"
  by pat_completeness auto
termination
  by (relation "measure (\<lambda>(m, e). nat \<bar>m\<bar>)") auto

definition int_num :: "int \<Rightarrow> jsnum" where
  "int_num n = norm_dec n 0"

definition dec_less :: "int \<Rightarrow> int \<Rightarrow> int \<Rightarrow> int \<Rightarrow> bool" where
  "dec_less m1 e1 m2 e2 =
     (let e = min e1 e2 in m1 * 10 ^ nat (e1 - e) < m2 * 10 ^ nat (e2 - e))"

text \<open>The relational operator \<^verbatim>\<open><\<close> on two numbers: false as soon as one is \<open>NaN\<close>.\<close>

fun num_less :: "jsnum \<Rightarrow> jsnum \<Rightarrow> bool" where
  "num_less NaN y = False"
| "num_less x NaN = False"
| "num_less PosInf y = False"
| "num_less NegInf y = (y \<noteq> NegInf)"
| "num_less (Dec m e) PosInf = True"
| "num_less (Dec m e) NegInf = False"
| "num_less (Dec m1 e1) (Dec m2 e2) = dec_less m1 e1 m2 e2"

definition num_neg :: "jsnum \<Rightarrow> jsnum" where
  "num_neg x = (case x of NaN \<Rightarrow> NaN | PosInf \<Rightarrow> NegInf | NegInf \<Rightarrow> PosInf
                | Dec m e \<Rightarrow> Dec (- m) e)"

subsection \<open>Digits\<close>

definition digit_char :: "nat \<Rightarrow> char" where
  "digit_char d = ''0123456789abcdef'' ! (d mod 16)"

definition is_digit :: "char \<Rightarrow> bool" where
  "is_digit c = (48 \<le> (of_char c :: nat) \<and> (of_char c :: nat) \<le> 57)"

definition digit_val :: "char \<Rightarrow> nat" where
  "digit_val c = of_char c - 48"

fun show_nat :: "nat \<Rightarrow> string" where
  "show_nat n = (if n < 10 then [digit_char n] else show_nat (n div 10) @ [digit_char (n mod 10)])"

definition nat_of_digits :: "string \<Rightarrow> nat" where
  "nat_of_digits ds = foldl (\<lambda>a c. 10 * a + digit_val c) 0 ds"

text \<open>
  \<^verbatim>\<open>Number::toString\<close> of ECMAScript in radix ten, on the digits \<open>ds\<close> of the
  mantissa, their number \<open>k\<close> and the position \<open>n\<close> of the decimal point.
\<close>

definition show_dec :: "nat \<Rightarrow> int \<Rightarrow> string" where
  "show_dec m e =
     (let ds = show_nat m; k = int (length ds); n = e + k in
      if k \<le> n \<and> n \<le> 21 then ds @ replicate (nat (n - k)) CHR ''0''
      else if 0 < n \<and> n \<le> 21 then take (nat n) ds @ ''.'' @ drop (nat n) ds
      else if - 6 < n \<and> n \<le> 0 then ''0.'' @ replicate (nat (- n)) CHR ''0'' @ ds
      else (if k = 1 then ds else take 1 ds @ ''.'' @ drop 1 ds)
           @ ''e'' @ (if n - 1 < 0 then ''-'' else ''+'') @ show_nat (nat \<bar>n - 1\<bar>))"

definition number_to_string :: "jsnum \<Rightarrow> string" where
  "number_to_string x =
     (case x of
        NaN \<Rightarrow> ''NaN''
      | PosInf \<Rightarrow> ''Infinity''
      | NegInf \<Rightarrow> ''-Infinity''
      | Dec m e \<Rightarrow>
          if m = 0 then ''0''
          else if m < 0 then ''-'' @ show_dec (nat (- m)) e
          else show_dec (nat m) e)"

subsection \<open>Strings to numbers\<close>

text \<open>
  White space and line terminators of ECMAScript among the code units below 256: TAB, LF,
  VT, FF, CR, space and the no-break space.
\<close>

definition is_ws :: "char \<Rightarrow> bool" where
  "is_ws c = ((of_char c :: nat) \<in> {9, 10, 11, 12, 13, 32, 160})"

definition trim_start :: "string \<Rightarrow> string" where
  "trim_start s = dropWhile is_ws s"

definition trim_end :: "string \<Rightarrow> string" where
  "trim_end s = rev (dropWhile is_ws (rev s))"

definition trim :: "string \<Rightarrow> string" where
  "trim s = trim_end (trim_start s)"

definition strip_sign :: "string \<Rightarrow> bool \<times> string" where
  "strip_sign s =
     (case s of
        [] \<Rightarrow> (False, [])
      | c # cs \<Rightarrow>
          if c = CHR ''-'' then (True, cs)
          else if c = CHR ''+'' then (False, cs)
          else (False, s))"

text \<open>
  \<^verbatim>\<open>parseInt(s, 10)\<close>: leading white space, a sign, then the longest run of decimal
  digits; \<open>NaN\<close> when there is none. With radix ten no \<^verbatim>\<open>0x\<close> prefix is stripped.
\<close>

definition parse_int10 :: "string \<Rightarrow> jsnum" where
  "parse_int10 s =
     (let (neg, u) = strip_sign (trim_start s); z = takeWhile is_digit u in
      if z = [] then NaN
      else int_num ((if neg then - 1 else 1) * int (nat_of_digits z)))"

text \<open>An exponent part \<^verbatim>\<open>e\<close>, sign, digits: its value and the rest, or 0 and the input.\<close>

definition scan_exponent :: "string \<Rightarrow> int \<times> string" where
  "scan_exponent s =
     (case s of
        [] \<Rightarrow> (0, s)
      | c # cs \<Rightarrow>
          if c = CHR ''e'' \<or> c = CHR ''E'' then
            (let (neg, u) = strip_sign cs; z = takeWhile is_digit u in
             if z = [] then (0, s)
             else ((if neg then - 1 else 1) * int (nat_of_digits z), dropWhile is_digit u))
          else (0, s))"

text \<open>
  The longest prefix that is an unsigned decimal literal (digits, a fraction, an
  exponent), with the rest of the string; \<open>None\<close> when no prefix is one.
\<close>

definition scan_decimal :: "string \<Rightarrow> (jsnum \<times> string) option" where
  "scan_decimal s =
     (let ip = takeWhile is_digit s;
          r1 = dropWhile is_digit s;
          has_dot = (r1 \<noteq> [] \<and> hd r1 = CHR ''.'');
          fp = (if has_dot then takeWhile is_digit (tl r1) else []);
          r3 = (if has_dot then dropWhile is_digit (tl r1) else r1)
      in if ip = [] \<and> fp = [] then None
         else (let (x, r4) = scan_exponent r3
               in Some (norm_dec (int (nat_of_digits (ip @ fp))) (x - int (length fp)), r4)))"

definition parse_float :: "string \<Rightarrow> jsnum" where
  "parse_float s =
     (let (neg, u) = strip_sign (trim_start s) in
      if take 8 u = ''Infinity'' then (if neg then NegInf else PosInf)
      else (case scan_decimal u of
              None \<Rightarrow> NaN
            | Some (x, r) \<Rightarrow> if neg then num_neg x else x))"

definition radix_val :: "char \<Rightarrow> nat option" where
  "radix_val c =
     (let n = (of_char c :: nat) in
      if 48 \<le> n \<and> n \<le> 57 then Some (n - 48)
      else if 97 \<le> n \<and> n \<le> 102 then Some (n - 87)
      else if 65 \<le> n \<and> n \<le> 70 then Some (n - 55)
      else None)"

definition parse_radix :: "nat \<Rightarrow> string \<Rightarrow> jsnum" where
  "parse_radix b ds =
     (if ds \<noteq> [] \<and> list_all (\<lambda>c. case radix_val c of Some d \<Rightarrow> d < b | None \<Rightarrow> False) ds
      then int_num (int (foldl (\<lambda>a c. b * a + (case radix_val c of Some d \<Rightarrow> d | None \<Rightarrow> 0)) 0 ds))
      else NaN)"

text \<open>
  \<^verbatim>\<open>StringToNumber\<close>, the coercion of a string by \<^verbatim>\<open>ToNumber\<close>: the whole trimmed
  string must be a numeric literal; the empty string is 0.
\<close>

definition string_to_number :: "string \<Rightarrow> jsnum" where
  "string_to_number s =
     (let t = trim s in
      if t = [] then Dec 0 0
      else if take 2 t = ''0x'' \<or> take 2 t = ''0X'' then parse_radix 16 (drop 2 t)
      else if take 2 t = ''0o'' \<or> take 2 t = ''0O'' then parse_radix 8 (drop 2 t)
      else if take 2 t = ''0b'' \<or> take 2 t = ''0B'' then parse_radix 2 (drop 2 t)
      else (let (neg, u) = strip_sign t in
            if u = ''Infinity'' then (if neg then NegInf else PosInf)
            else (case scan_decimal u of
                    Some (x, []) \<Rightarrow> if neg then num_neg x else x
                  | _ \<Rightarrow> NaN)))"

subsection \<open>Coercions and operators\<close>

fun join_with :: "string \<Rightarrow> string list \<Rightarrow> string" where
  "join_with sep [] = []"
| "join_with sep [x] = x"
| "join_with sep (x # y # ys) = x @ sep @ join_with sep (y # ys)"

text \<open>\<^verbatim>\<open>String(v)\<close>; an array is its elements joined by commas, null and undefined blank.\<close>

fun to_string :: "jsval \<Rightarrow> string" where
  "to_string JUndefined = ''undefined''"
| "to_string JNull = ''null''"
| "to_string (JBool b) = (if b then ''true'' else ''false'')"
| "to_string (JNum x) = number_to_string x"
| "to_string (JStr s) = s"
| "to_string (JArr xs) =
     join_with '','' (map (\<lambda>x. if x = JUndefined \<or> x = JNull then [] else to_string x) xs)"
| "to_string (JObj kvs) = ''[object Object]''"

text \<open>\<^verbatim>\<open>ToNumber(v)\<close>; arrays and objects go through their string.\<close>

definition to_number :: "jsval \<Rightarrow> jsnum" where
  "to_number v =
     (case v of
        JUndefined \<Rightarrow> NaN
      | JNull \<Rightarrow> Dec 0 0
      | JBool b \<Rightarrow> (if b then Dec 1 0 else Dec 0 0)
      | JNum x \<Rightarrow> x
      | JStr s \<Rightarrow> string_to_number s
      | JArr xs \<Rightarrow> string_to_number (to_string v)
      | JObj kvs \<Rightarrow> string_to_number (to_string v))"

definition truthy :: "jsval \<Rightarrow> bool" where
  "truthy v =
     (case v of
        JUndefined \<Rightarrow> False
      | JNull \<Rightarrow> False
      | JBool b \<Rightarrow> b
      | JNum x \<Rightarrow> (case x of NaN \<Rightarrow> False | Dec m e \<Rightarrow> m \<noteq> 0 | _ \<Rightarrow> True)
      | JStr s \<Rightarrow> s \<noteq> []
      | JArr xs \<Rightarrow> True
      | JObj kvs \<Rightarrow> True)"

text \<open>\<^verbatim>\<open>a || b\<close>.\<close>

definition js_or :: "jsval \<Rightarrow> jsval \<Rightarrow> jsval" where
  "js_or a b = (if truthy a then a else b)"

text \<open>
  \<^verbatim>\<open>a === b\<close>. Arrays and objects compare by identity; the ones compared here always
  come from different allocations (a decoded cell against an argument), hence \<open>False\<close>.
\<close>

fun strict_eq :: "jsval \<Rightarrow> jsval \<Rightarrow> bool" where
  "strict_eq JUndefined JUndefined = True"
| "strict_eq JNull JNull = True"
| "strict_eq (JBool a) (JBool b) = (a = b)"
| "strict_eq (JNum x) (JNum y) = (x \<noteq> NaN \<and> x = y)"
| "strict_eq (JStr s) (JStr t) = (s = t)"
| "strict_eq a b = False"

text \<open>\<^verbatim>\<open>v != null\<close>.\<close>

definition not_nullish :: "jsval \<Rightarrow> bool" where
  "not_nullish v = (v \<noteq> JUndefined \<and> v \<noteq> JNull)"

subsection \<open>JSON text\<close>

definition json_escape :: "char \<Rightarrow> string" where
  "json_escape c =
     (let n = (of_char c :: nat) in
      if n = 34 then [CHR 0x5C, CHR 0x22]
      else if n = 92 then [CHR 0x5C, CHR 0x5C]
      else if n = 8 then [CHR 0x5C, CHR ''b'']
      else if n = 12 then [CHR 0x5C, CHR ''f'']
      else if n = 10 then [CHR 0x5C, CHR ''n'']
      else if n = 13 then [CHR 0x5C, CHR ''r'']
      else if n = 9 then [CHR 0x5C, CHR ''t'']
      else if n < 32 then [CHR 0x5C, CHR ''u'', CHR ''0'', CHR ''0'', digit_char (n div 16), digit_char (n mod 16)]
      else [c])"

definition json_quote :: "string \<Rightarrow> string" where
  "json_quote s = [CHR 0x22] @ concat (map json_escape s) @ [CHR 0x22]"

text \<open>
  The text \<^verbatim>\<open>JSON.stringify\<close> produces for a value inside a document: an undefined array
  element and a non-finite number are \<^verbatim>\<open>null\<close>, an undefined property is left out.
\<close>

fun json_text :: "jsval \<Rightarrow> string" where
  "json_text JUndefined = ''null''"
| "json_text JNull = ''null''"
| "json_text (JBool b) = (if b then ''true'' else ''false'')"
| "json_text (JNum x) = (case x of Dec m e \<Rightarrow> number_to_string x | _ \<Rightarrow> ''null'')"
| "json_text (JStr s) = json_quote s"
| "json_text (JArr xs) = ''['' @ join_with '','' (map json_text xs) @ '']''"
| "json_text (JObj kvs) =
     ''{'' @ join_with '',''
        (map (\<lambda>(k, v). json_quote k @ '':'' @ json_text v) (filter (\<lambda>(k, v). v \<noteq> JUndefined) kvs))
     @ ''}''"

text \<open>\<^verbatim>\<open>JSON.stringify(v)\<close>: undefined for undefined, a string otherwise.\<close>

definition JSON_stringify :: "jsval \<Rightarrow> jsval" where
  "JSON_stringify v = (if v = JUndefined then JUndefined else JStr (json_text v))"

section \<open>The row codec (netlify/lib/sheets.js)\<close>

text \<open>
  An activity is a JavaScript object: its properties in insertion order. A property
  that is absent reads as undefined, and a property can be present with the value
  undefined. A row is the array of cells the sheet returns: trailing cells can be
  missing and then read as undefined.
\<close>

type_synonym activity = "(string \<times> jsval) list"

datatype js_error = ActivityNotFound | UnknownField string | TypeError | SyntaxError

definition COLUMNS :: "(string \<times> nat) list" where
  "COLUMNS =
     [(''url'', 0), (''shortName'', 1), (''alive'', 2), (''lastUpdated'', 3),
      (''category'', 4), (''openHours'', 5), (''address'', 6), (''services'', 7),
      (''description'', 8), (''userRating'', 9), (''drivingMinutes'', 10),
      (''transitMinutes'', 11), (''distanceKm'', 12), (''userComment'', 13),
      (''userRemoved'', 14)]"

definition HEADER_ROW :: "string list" where
  "HEADER_ROW =
     [''url'', ''shortName'', ''alive'', ''lastUpdated'', ''category'', ''openHours'',
      ''address'', ''services'', ''description'', ''userRating'', ''drivingMinutes'',
      ''transitMinutes'', ''distanceKm'', ''userComment'', ''userRemoved'']"

text \<open>\<^verbatim>\<open>obj.k\<close> and \<^verbatim>\<open>obj.k = v\<close>.\<close>

definition get_prop :: "activity \<Rightarrow> string \<Rightarrow> jsval" where
  "get_prop obj k = (case map_of obj k of Some v \<Rightarrow> v | None \<Rightarrow> JUndefined)"

definition set_prop :: "string \<Rightarrow> jsval \<Rightarrow> activity \<Rightarrow> activity" where
  "set_prop k v obj = AList.update k v obj"

text \<open>
  \<^verbatim>\<open>row[i]\<close>, \<^verbatim>\<open>row[COLUMNS.name]\<close> and \<^verbatim>\<open>row[COLUMNS.name] = v\<close>. \<open>COLUMNS\<close> is read by
  its own keys only: the names every object inherits (\<^verbatim>\<open>toString\<close> and the like) are
  not field names any caller passes.
\<close>

definition idx :: "jsval list \<Rightarrow> nat \<Rightarrow> jsval" where
  "idx row i = (if i < length row then row ! i else JUndefined)"

definition cell :: "jsval list \<Rightarrow> string \<Rightarrow> jsval" where
  "cell row name = (case map_of COLUMNS name of Some i \<Rightarrow> idx row i | None \<Rightarrow> JUndefined)"

definition arr_set :: "jsval list \<Rightarrow> nat \<Rightarrow> jsval \<Rightarrow> jsval list" where
  "arr_set row i v =
     (if i < length row then row[i := v]
      else row @ replicate (i - length row) JUndefined @ [v])"

definition put :: "string \<Rightarrow> jsval \<Rightarrow> jsval list \<Rightarrow> jsval list" where
  "put name v row = (case map_of COLUMNS name of Some i \<Rightarrow> arr_set row i v | None \<Rightarrow> row)"

text \<open>\<^verbatim>\<open>s.split(',')\<close>.\<close>

fun split_on :: "char \<Rightarrow> string \<Rightarrow> string list" where
  "split_on d [] = [[]]"
| "split_on d (c # cs) =
     (if c = d then [] # split_on d cs
      else (case split_on d cs of x # xs \<Rightarrow> (c # x) # xs | [] \<Rightarrow> [[c]]))"

text \<open>
  The services cell: \<^verbatim>\<open>JSON.parse\<close>, and when it throws, the cell split at commas with
  each piece trimmed. \<^verbatim>\<open>JSON.parse\<close> is the platform's: it is the parameter \<open>jp\<close>, from
  the text to the value, \<open>None\<close> when it throws. A cell that is not a string has no
  \<^verbatim>\<open>split\<close>, so the fallback throws a TypeError there.
\<close>

definition parse_services :: "(string \<Rightarrow> jsval option) \<Rightarrow> jsval \<Rightarrow> js_error + jsval" where
  "parse_services jp c =
     (case jp (to_string c) of
        Some v \<Rightarrow> Inr v
      | None \<Rightarrow>
          (case c of
             JStr s \<Rightarrow> Inr (JArr (map (\<lambda>x. JStr (trim x)) (split_on CHR '','' s)))
           | _ \<Rightarrow> Inl TypeError))"

text \<open>\<^verbatim>\<open>if (c) activity.k = f(c)\<close>.\<close>

definition opt_field :: "string \<Rightarrow> jsval \<Rightarrow> (jsval \<Rightarrow> jsval) \<Rightarrow> activity \<Rightarrow> activity" where
  "opt_field k c f a = (if truthy c then set_prop k (f c) a else a)"

definition is_true_cell :: "jsval \<Rightarrow> bool" where
  "is_true_cell c = (strict_eq c (JStr ''true'') \<or> strict_eq c (JBool True))"

text \<open>
  \<^verbatim>\<open>rowToActivity(row)\<close>: \<open>Inr None\<close> is the \<^verbatim>\<open>null\<close> it returns for a row without a url.
  The argument is always an array here, so \<^verbatim>\<open>!row\<close> is false.
\<close>

definition rowToActivity ::
  "(string \<Rightarrow> jsval option) \<Rightarrow> jsval list \<Rightarrow> js_error + activity option" where
  "rowToActivity jp row =
     (if \<not> truthy (cell row ''url'') then Inr None
      else
        (let activity =
               [(''url'', js_or (cell row ''url'') (JStr [])),
                (''shortName'', js_or (cell row ''shortName'') (JStr [])),
                (''alive'', JBool (is_true_cell (cell row ''alive''))),
                (''lastUpdated'', js_or (cell row ''lastUpdated'') (JStr []))];
             activity = opt_field ''category'' (cell row ''category'') id activity;
             activity = opt_field ''openHours'' (cell row ''openHours'') id activity;
             activity = opt_field ''address'' (cell row ''address'') id activity
         in case (if truthy (cell row ''services'')
                  then map_sum id (\<lambda>v. set_prop ''services'' v activity)
                         (parse_services jp (cell row ''services''))
                  else Inr activity) of
              Inl e \<Rightarrow> Inl e
            | Inr activity \<Rightarrow>
                (let activity = opt_field ''description'' (cell row ''description'') id activity;
                     activity = opt_field ''userRating'' (cell row ''userRating'')
                                  (\<lambda>c. JNum (parse_int10 (to_string c))) activity;
                     activity = opt_field ''drivingMinutes'' (cell row ''drivingMinutes'')
                                  (\<lambda>c. JNum (parse_int10 (to_string c))) activity;
                     activity = opt_field ''transitMinutes'' (cell row ''transitMinutes'')
                                  (\<lambda>c. JNum (parse_int10 (to_string c))) activity;
                     activity = opt_field ''distanceKm'' (cell row ''distanceKm'')
                                  (\<lambda>c. JNum (parse_float (to_string c))) activity;
                     activity = opt_field ''userComment'' (cell row ''userComment'') id activity;
                     activity = (if is_true_cell (cell row ''userRemoved'')
                                 then set_prop ''userRemoved'' (JBool True) activity
                                 else activity)
                 in Inr (Some activity))))"

text \<open>\<^verbatim>\<open>v != null ? String(v) : ''\<close>.\<close>

definition num_cell :: "jsval \<Rightarrow> jsval" where
  "num_cell v = (if not_nullish v then JStr (to_string v) else JStr [])"

definition activityToRow :: "activity \<Rightarrow> jsval list" where
  "activityToRow activity =
     (let row = replicate (length HEADER_ROW) (JStr []);
          row = put ''url'' (js_or (get_prop activity ''url'') (JStr [])) row;
          row = put ''shortName'' (js_or (get_prop activity ''shortName'') (JStr [])) row;
          row = put ''alive'' (JStr (if truthy (get_prop activity ''alive'') then ''true'' else ''false'')) row;
          row = put ''lastUpdated'' (js_or (get_prop activity ''lastUpdated'') (JStr [])) row;
          row = put ''category'' (js_or (get_prop activity ''category'') (JStr [])) row;
          row = put ''openHours'' (js_or (get_prop activity ''openHours'') (JStr [])) row;
          row = put ''address'' (js_or (get_prop activity ''address'') (JStr [])) row;
          row = put ''services'' (if truthy (get_prop activity ''services'')
                                  then JSON_stringify (get_prop activity ''services'')
                                  else JStr []) row;
          row = put ''description'' (js_or (get_prop activity ''description'') (JStr [])) row;
          row = put ''userRating'' (num_cell (get_prop activity ''userRating'')) row;
          row = put ''drivingMinutes'' (num_cell (get_prop activity ''drivingMinutes'')) row;
          row = put ''transitMinutes'' (num_cell (get_prop activity ''transitMinutes'')) row;
          row = put ''distanceKm'' (num_cell (get_prop activity ''distanceKm'')) row;
          row = put ''userComment'' (js_or (get_prop activity ''userComment'') (JStr [])) row;
          row = put ''userRemoved'' (JStr (if truthy (get_prop activity ''userRemoved'') then ''true'' else [])) row
      in row)"

section \<open>The backing table\<close>

text \<open>
  The sheet is the grid of cell values its \<^verbatim>\<open>values.get\<close> returns, the header row
  first. The store also records every call of the sheets API in order, so that "no
  store access" and "no write" are statements about the record. The service is taken
  to answer every call: transport and authentication failures are not modelled.

  The ranges the code uses: \<^verbatim>\<open>Sheet1!A2:O\<close>, \<^verbatim>\<open>Sheet1!A:A\<close>, \<^verbatim>\<open>Sheet1!A<n>:O<n>\<close> and
  the single cell \<^verbatim>\<open>Sheet1!<letter><n>\<close>.
\<close>

datatype a1range = A2_O | A_A | RowA_O nat | CellAt char nat

datatype api_call = ValuesGet a1range | ValuesUpdate a1range "jsval list list"

record store =
  grid :: "jsval list list"
  calls :: "api_call list"

definition col_of :: "char \<Rightarrow> nat" where
  "col_of l = of_char l - 65"

definition range_values :: "a1range \<Rightarrow> jsval list list \<Rightarrow> jsval list list" where
  "range_values r g =
     (case r of
        A2_O \<Rightarrow> map (take 15) (drop 1 g)
      | A_A \<Rightarrow> map (take 1) g
      | RowA_O n \<Rightarrow> (if n = 0 then [] else map (take 15) (take 1 (drop (n - 1) g)))
      | CellAt l n \<Rightarrow>
          (if n = 0 then []
           else map (\<lambda>row. take 1 (drop (col_of l) row)) (take 1 (drop (n - 1) g))))"

definition values_get :: "a1range \<Rightarrow> store \<Rightarrow> jsval list list \<times> store" where
  "values_get r st = (range_values r (grid st), st\<lparr>calls := calls st @ [ValuesGet r]\<rparr>)"

text \<open>
  Writing the cells \<open>vs\<close> into row \<open>r\<close> from column \<open>c\<close> on (both counted from 0): the
  grid grows by empty rows and the row by empty cells as far as needed.
\<close>

definition write_run :: "nat \<Rightarrow> nat \<Rightarrow> jsval list \<Rightarrow> jsval list list \<Rightarrow> jsval list list" where
  "write_run r c vs g =
     (let g1 = g @ replicate (Suc r - length g) [];
          old = g1 ! r;
          old1 = old @ replicate (c + length vs - length old) (JStr [])
      in g1[r := take c old1 @ vs @ drop (c + length vs) old1])"

fun write_rows :: "nat \<Rightarrow> nat \<Rightarrow> jsval list list \<Rightarrow> jsval list list \<Rightarrow> jsval list list" where
  "write_rows r c [] g = g"
| "write_rows r c (vs # vss) g = write_rows (Suc r) c vss (write_run r c vs g)"

definition range_origin :: "a1range \<Rightarrow> nat \<times> nat" where
  "range_origin r =
     (case r of
        A2_O \<Rightarrow> (1, 0)
      | A_A \<Rightarrow> (0, 0)
      | RowA_O n \<Rightarrow> (n - 1, 0)
      | CellAt l n \<Rightarrow> (n - 1, col_of l))"

definition values_update :: "a1range \<Rightarrow> jsval list list \<Rightarrow> store \<Rightarrow> store" where
  "values_update r vals st =
     (let (r0, c0) = range_origin r in
      st\<lparr>grid := write_rows r0 c0 vals (grid st),
         calls := calls st @ [ValuesUpdate r vals]\<rparr>)"

section \<open>The store client (netlify/lib/sheets.js)\<close>

text \<open>\<^verbatim>\<open>rows.map(rowToActivity)\<close>: the first call that throws ends the map.\<close>

fun collect :: "(js_error + 'a) list \<Rightarrow> js_error + 'a list" where
  "collect [] = Inr []"
| "collect (x # xs) =
     (case x of
        Inl e \<Rightarrow> Inl e
      | Inr a \<Rightarrow> (case collect xs of Inl e \<Rightarrow> Inl e | Inr as \<Rightarrow> Inr (a # as)))"

text \<open>The filter \<^verbatim>\<open>a => a && !a.userRemoved\<close>.\<close>

definition live :: "activity option \<Rightarrow> activity option" where
  "live a =
     (case a of
        None \<Rightarrow> None
      | Some x \<Rightarrow> if truthy (get_prop x ''userRemoved'') then None else Some x)"

definition getAllActivities ::
  "(string \<Rightarrow> jsval option) \<Rightarrow> store \<Rightarrow> (js_error + activity list) \<times> store" where
  "getAllActivities jp st =
     (let (rows, st1) = values_get A2_O st in
      case collect (map (rowToActivity jp) rows) of
        Inl e \<Rightarrow> (Inl e, st1)
      | Inr as \<Rightarrow> (Inr (List.map_filter live as), st1))"

text \<open>
  The loop of \<^verbatim>\<open>findActivityRowIndex\<close>, from index 1 (after the header): \<open>i\<close> is the
  index of the head of the remaining rows, the result is \<open>i + 1\<close>.
\<close>

fun scan_rows :: "jsval list list \<Rightarrow> nat \<Rightarrow> jsval \<Rightarrow> nat option" where
  "scan_rows [] i url = None"
| "scan_rows (r # rs) i url =
     (if strict_eq (idx r 0) url then Some (i + 1) else scan_rows rs (i + 1) url)"

definition findActivityRowIndex :: "jsval \<Rightarrow> store \<Rightarrow> nat option \<times> store" where
  "findActivityRowIndex url st =
     (let (rows, st1) = values_get A_A st in (scan_rows (drop 1 rows) 1 url, st1))"

text \<open>\<^verbatim>\<open>String.fromCharCode(65 + columnIndex)\<close>.\<close>

definition columnLetter :: "nat \<Rightarrow> char" where
  "columnLetter columnIndex = char_of (65 + columnIndex)"

definition format_cell :: "jsval \<Rightarrow> jsval" where
  "format_cell v =
     (case v of
        JNull \<Rightarrow> JStr []
      | JUndefined \<Rightarrow> JStr []
      | JBool b \<Rightarrow> JStr (if b then ''true'' else ''false'')
      | JArr xs \<Rightarrow> JSON_stringify v
      | _ \<Rightarrow> JStr (to_string v))"

definition updateActivityField ::
  "(string \<Rightarrow> jsval option) \<Rightarrow> jsval \<Rightarrow> string \<Rightarrow> jsval \<Rightarrow> store
     \<Rightarrow> (js_error + activity option) \<times> store" where
  "updateActivityField jp url field v st =
     (let (rowIndex, st1) = findActivityRowIndex url st in
      case rowIndex of
        None \<Rightarrow> (Inl ActivityNotFound, st1)
      | Some r \<Rightarrow>
          if r = 0 then (Inl ActivityNotFound, st1)
          else
            (case map_of COLUMNS field of
               None \<Rightarrow> (Inl (UnknownField field), st1)
             | Some columnIndex \<Rightarrow>
                 (let st2 = values_update (CellAt (columnLetter columnIndex) r) [[format_cell v]] st1;
                      (allActivities, st3) = getAllActivities jp st2
                  in case allActivities of
                       Inl e \<Rightarrow> (Inl e, st3)
                     | Inr as \<Rightarrow> (Inr (find (\<lambda>a. strict_eq (get_prop a ''url'') url) as), st3))))"

definition markActivityRemoved ::
  "(string \<Rightarrow> jsval option) \<Rightarrow> jsval \<Rightarrow> store \<Rightarrow> (js_error + activity option) \<times> store" where
  "markActivityRemoved jp url st = updateActivityField jp url ''userRemoved'' (JBool True) st"

definition getActivityByUrl ::
  "(string \<Rightarrow> jsval option) \<Rightarrow> jsval \<Rightarrow> store \<Rightarrow> (js_error + activity option) \<times> store" where
  "getActivityByUrl jp url st =
     (let (activities, st1) = getAllActivities jp st in
      case activities of
        Inl e \<Rightarrow> (Inl e, st1)
      | Inr as \<Rightarrow> (Inr (find (\<lambda>a. strict_eq (get_prop a ''url'') url) as), st1))"

text \<open>The object spread \<^verbatim>\<open>{ ...obj, ...src }\<close>, one source at a time.\<close>

definition spread_into :: "activity \<Rightarrow> activity \<Rightarrow> activity" where
  "spread_into obj src = fold (\<lambda>(k, v). AList.update k v) src obj"

definition updateActivity ::
  "(string \<Rightarrow> jsval option) \<Rightarrow> jsval \<Rightarrow> activity \<Rightarrow> store \<Rightarrow> (js_error + activity) \<times> store" where
  "updateActivity jp url updates st =
     (let (rowIndex, st1) = findActivityRowIndex url st in
      case rowIndex of
        None \<Rightarrow> (Inl ActivityNotFound, st1)
      | Some r \<Rightarrow>
          if r = 0 then (Inl ActivityNotFound, st1)
          else
            (let (vals, st2) = values_get (RowA_O r) st1;
                 currentRow = (case vals of [] \<Rightarrow> [] | x # xs \<Rightarrow> x)
             in case rowToActivity jp currentRow of
                  Inl e \<Rightarrow> (Inl e, st2)
                | Inr currentActivity \<Rightarrow>
                    (let updatedActivity =
                           spread_into
                             (spread_into [] (case currentActivity of None \<Rightarrow> [] | Some a \<Rightarrow> a))
                             updates;
                         newRow = activityToRow updatedActivity;
                         st3 = values_update (RowA_O r) [newRow] st2
                     in (Inr updatedActivity, st3))))"

section \<open>The rating handler (netlify/functions/update-rating.js)\<close>

record event =
  httpMethod :: string
  body :: jsval

record response =
  statusCode :: nat
  headers :: "(string \<times> string) list"
  payload :: string

text \<open>A property of a parsed body, as the destructuring reads it.\<close>

definition body_field :: "jsval \<Rightarrow> string \<Rightarrow> jsval" where
  "body_field v k = (case v of JObj kvs \<Rightarrow> get_prop kvs k | _ \<Rightarrow> JUndefined)"

definition error_response :: "nat \<Rightarrow> string \<Rightarrow> response" where
  "error_response code msg =
     \<lparr>statusCode = code,
      headers = [(''Access-Control-Allow-Origin'', ''*'')],
      payload = json_text (JObj [(''error'', JStr msg)])\<rparr>"

text \<open>\<^verbatim>\<open>rating !== null && (rating < 1 || rating > 5)\<close>.\<close>

definition rating_rejected :: "jsval \<Rightarrow> bool" where
  "rating_rejected rating =
     (\<not> strict_eq rating JNull \<and>
      (num_less (to_number rating) (Dec 1 0) \<or> num_less (Dec 5 0) (to_number rating)))"

text \<open>
  \<^verbatim>\<open>handler(event)\<close>. \<^verbatim>\<open>JSON.parse(event.body)\<close> that throws, and the destructuring of
  \<^verbatim>\<open>null\<close>, end in the catch block with the 500 response.
\<close>

definition handler ::
  "(string \<Rightarrow> jsval option) \<Rightarrow> event \<Rightarrow> store \<Rightarrow> response \<times> store" where
  "handler jp ev st =
     (if httpMethod ev = ''OPTIONS'' then
        (\<lparr>statusCode = 200,
          headers = [(''Access-Control-Allow-Origin'', ''*''),
                     (''Access-Control-Allow-Headers'', ''Content-Type''),
                     (''Access-Control-Allow-Methods'', ''PUT, OPTIONS'')],
          payload = []\<rparr>, st)
      else if httpMethod ev \<noteq> ''PUT'' then (error_response 405 ''Method not allowed'', st)
      else
        (case jp (to_string (body ev)) of
           None \<Rightarrow> (error_response 500 ''Failed to update rating'', st)
         | Some parsed \<Rightarrow>
             if parsed = JNull \<or> parsed = JUndefined
             then (error_response 500 ''Failed to update rating'', st)
             else
               (let url = body_field parsed ''url''; rating = body_field parsed ''rating'' in
                if \<not> truthy url then (error_response 400 ''URL is required'', st)
                else if rating_rejected rating
                then (error_response 400 ''Rating must be between 1 and 5'', st)
                else
                  (case updateActivityField jp url ''userRating'' rating st of
                     (Inr activity, st1) \<Rightarrow>
                       (\<lparr>statusCode = 200,
                         headers = [(''Content-Type'', ''application/json''),
                                    (''Access-Control-Allow-Origin'', ''*'')],
                         payload = json_text (JObj [(''success'', JBool True),
                                     (''activity'', case activity of None \<Rightarrow> JUndefined | Some a \<Rightarrow> JObj a)])\<rparr>,
                        st1)
                   | (Inl e, st1) \<Rightarrow>
                       if e = ActivityNotFound
                       then (error_response 404 ''Activity not found'', st1)
                       else (error_response 500 ''Failed to update rating'', st1)))))"

section \<open>Example data\<close>

text \<open>
  A sheet with the header and four rows: a live record, a removed one, a row without a
  url, and a row with a native boolean in the alive column. \<open>no_json\<close> is a
  \<^verbatim>\<open>JSON.parse\<close> that rejects every text; none of the example cells is JSON.
\<close>

definition no_json :: "string \<Rightarrow> jsval option" where
  "no_json s = None"

definition sheet_ex :: "jsval list list" where
  "sheet_ex =
     [map JStr HEADER_ROW,
      map JStr [''https://a'', ''Zoo'', ''true'', ''2024-01-01'', ''zoo'', [], [], [], [], []],
      map JStr [''https://b'', ''Pool'', ''TRUE'', ''2024-02-02'', [], [], [], [], [], ''9'', [], [], [], [], ''true''],
      map JStr [[], ''Ghost'', ''true''],
      [JStr ''https://c'', JStr ''Farm'', JBool True, JStr [], JStr [], JStr [], JStr [], JStr [], JStr [],
       JStr ''9'', JStr [], JStr [], JStr [], JStr [], JStr ''1'']]"

definition zoo_ex :: activity where
  "zoo_ex = [(''url'', JStr ''https://a''), (''shortName'', JStr ''Zoo''), (''alive'', JBool True),
             (''lastUpdated'', JStr ''2024-01-01''), (''category'', JStr ''zoo'')]"

definition farm_ex :: activity where
  "farm_ex = [(''url'', JStr ''https://c''), (''shortName'', JStr ''Farm''), (''alive'', JBool True),
              (''lastUpdated'', JStr []), (''userRating'', JNum (Dec 9 0))]"

definition store_ex :: store where
  "store_ex = \<lparr>grid = sheet_ex, calls = []\<rparr>"

text \<open>
  A \<^verbatim>\<open>JSON.parse\<close> that reads every body as the value \<open>v\<close>, and a PUT request: together
  a rating request whose body parses to \<open>v\<close>.
\<close>

definition parse_as :: "jsval \<Rightarrow> string \<Rightarrow> jsval option" where
  "parse_as v s = Some v"

definition put_event :: event where
  "put_event = \<lparr>httpMethod = ''PUT'', body = JStr ''{}''\<rparr>"

text \<open>The calls that write to the sheet.\<close>

definition is_write :: "api_call \<Rightarrow> bool" where
  "is_write c = (case c of ValuesUpdate r vals \<Rightarrow> True | ValuesGet r \<Rightarrow> False)"

section \<open>Valid activities\<close>

text \<open>
  The Activity of the data model, as the specification types it: the url a non-empty
  string, names and texts strings, the two flags booleans, services a sequence of
  strings, the rating and the minutes integers, the distance a number, and no other
  field. Numbers are in normal form; an integer is one that \<^verbatim>\<open>String\<close> prints as plain
  digits (below \<open>10 ^ 21\<close> in absolute value).
\<close>

definition wf_num :: "jsnum \<Rightarrow> bool" where
  "wf_num x = (case x of Dec m e \<Rightarrow> (m = 0 \<and> e = 0) \<or> m mod 10 \<noteq> 0 | _ \<Rightarrow> True)"

definition is_integer_num :: "jsnum \<Rightarrow> bool" where
  "is_integer_num x =
     (case x of
        Dec m e \<Rightarrow> (m = 0 \<and> e = 0) \<or> (m mod 10 \<noteq> 0 \<and> 0 \<le> e \<and> \<bar>m\<bar> * 10 ^ nat e < 10 ^ 21)
      | _ \<Rightarrow> False)"

definition is_str :: "jsval \<Rightarrow> bool" where
  "is_str v = (case v of JStr s \<Rightarrow> True | _ \<Rightarrow> False)"

definition valid_field :: "string \<Rightarrow> jsval \<Rightarrow> bool" where
  "valid_field k v =
     (if k = ''url'' then (case v of JStr s \<Rightarrow> s \<noteq> [] | _ \<Rightarrow> False)
      else if k \<in> set [''shortName'', ''lastUpdated'', ''category'', ''openHours'', ''address'',
                        ''description'', ''userComment''] then is_str v
      else if k = ''alive'' \<or> k = ''userRemoved'' then (case v of JBool b \<Rightarrow> True | _ \<Rightarrow> False)
      else if k = ''services'' then (case v of JArr xs \<Rightarrow> list_all is_str xs | _ \<Rightarrow> False)
      else if k \<in> set [''userRating'', ''drivingMinutes'', ''transitMinutes'']
        then (case v of JNum x \<Rightarrow> is_integer_num x | _ \<Rightarrow> False)
      else if k = ''distanceKm'' then (case v of JNum x \<Rightarrow> wf_num x | _ \<Rightarrow> False)
      else False)"

definition valid_activity :: "activity \<Rightarrow> bool" where
  "valid_activity a = (list_all (\<lambda>(k, v). valid_field k v) a \<and> map_of a ''url'' \<noteq> None)"

text \<open>
  A record with services, numbers, an empty comment and \<open>userRemoved = false\<close>, what it
  decodes to after encoding, and a \<^verbatim>\<open>JSON.parse\<close> that reads the text of its services.
\<close>

definition services_ex :: jsval where
  "services_ex = JArr [JStr ''cafe'', JStr ''play, ground'']"

definition museum_ex :: activity where
  "museum_ex =
     [(''url'', JStr ''https://m''), (''shortName'', JStr ''Museum''), (''alive'', JBool False),
      (''lastUpdated'', JStr ''2024-03-03''), (''services'', services_ex),
      (''userRating'', JNum (Dec 5 0)), (''drivingMinutes'', JNum (Dec 12 1)),
      (''distanceKm'', JNum (Dec 125 (- 1))), (''userComment'', JStr []),
      (''userRemoved'', JBool False)]"

definition museum_back_ex :: activity where
  "museum_back_ex =
     [(''url'', JStr ''https://m''), (''shortName'', JStr ''Museum''), (''alive'', JBool False),
      (''lastUpdated'', JStr ''2024-03-03''), (''services'', services_ex),
      (''userRating'', JNum (Dec 5 0)), (''drivingMinutes'', JNum (Dec 12 1)),
      (''distanceKm'', JNum (Dec 125 (- 1)))]"

definition json_ex :: "string \<Rightarrow> jsval option" where
  "json_ex s = (if s = json_text services_ex then Some services_ex else None)"

section \<open>Auxiliary definitions for the proofs\<close>

text \<open>
  The two straight-line parts of \<open>rowToActivity\<close>, before and after the services block,
  under names of their own.
\<close>

definition decode_head :: "jsval list \<Rightarrow> activity" where
  "decode_head row =
     opt_field ''address'' (idx row 6) id
       (opt_field ''openHours'' (idx row 5) id
         (opt_field ''category'' (idx row 4) id
           [(''url'', js_or (idx row 0) (JStr [])),
            (''shortName'', js_or (idx row 1) (JStr [])),
            (''alive'', JBool (is_true_cell (idx row 2))),
            (''lastUpdated'', js_or (idx row 3) (JStr []))]))"

definition decode_tail :: "jsval list \<Rightarrow> activity \<Rightarrow> activity" where
  "decode_tail row b =
     (let c = opt_field ''userComment'' (idx row 13) id
          (opt_field ''distanceKm'' (idx row 12) (\<lambda>c. JNum (parse_float (to_string c)))
            (opt_field ''transitMinutes'' (idx row 11) (\<lambda>c. JNum (parse_int10 (to_string c)))
              (opt_field ''drivingMinutes'' (idx row 10) (\<lambda>c. JNum (parse_int10 (to_string c)))
                (opt_field ''userRating'' (idx row 9) (\<lambda>c. JNum (parse_int10 (to_string c)))
                  (opt_field ''description'' (idx row 8) id b)))))
      in if is_true_cell (idx row 14) then set_prop ''userRemoved'' (JBool True) c else c)"

text \<open>
  The store after \<open>updateActivityField\<close> has located row \<open>r\<close> and written column \<open>c\<close>.
\<close>

definition after_write :: "nat \<Rightarrow> nat \<Rightarrow> jsval \<Rightarrow> store \<Rightarrow> store" where
  "after_write r c v st =
     \<lparr>grid = write_run (r - 1) c [format_cell v] (grid st),
      calls = calls st @ [ValuesGet A_A, ValuesUpdate (CellAt (columnLetter c) r) [[format_cell v]]]\<rparr>"

text \<open>The row \<open>old\<close> grown by empty cells so that column \<open>c\<close> exists.\<close>

definition padded :: "jsval list \<Rightarrow> nat \<Rightarrow> jsval list" where
  "padded old c = old @ replicate (Suc c - length old) (JStr [])"

text \<open>The properties spread from what \<open>rowToActivity\<close> returned: none for \<^verbatim>\<open>null\<close>.\<close>

definition current_of :: "activity option \<Rightarrow> activity" where
  "current_of cur = (case cur of None \<Rightarrow> [] | Some a \<Rightarrow> a)"

section \<open>Properties of the codec\<close>

lemma cell_simps:
  "cell row ''url'' = idx row 0" "cell row ''shortName'' = idx row 1"
  "cell row ''alive'' = idx row 2" "cell row ''lastUpdated'' = idx row 3"
  "cell row ''category'' = idx row 4" "cell row ''openHours'' = idx row 5"
  "cell row ''address'' = idx row 6" "cell row ''services'' = idx row 7"
  "cell row ''description'' = idx row 8" "cell row ''userRating'' = idx row 9"
  "cell row ''drivingMinutes'' = idx row 10" "cell row ''transitMinutes'' = idx row 11"
  "cell row ''distanceKm'' = idx row 12" "cell row ''userComment'' = idx row 13"
  "cell row ''userRemoved'' = idx row 14"
  by (simp_all add: cell_def COLUMNS_def)

lemma map_of_set_prop_same: "map_of (set_prop k v a) k = Some v"
  by (simp add: set_prop_def update_conv')

lemma map_of_set_prop_other: "k' \<noteq> k \<Longrightarrow> map_of (set_prop k v a) k' = map_of a k'"
  by (simp add: set_prop_def update_conv')

lemma map_of_opt_field_same:
  "map_of (opt_field k c f a) k = (if truthy c then Some (f c) else map_of a k)"
  by (simp add: opt_field_def map_of_set_prop_same)

lemma map_of_opt_field_other: "k' \<noteq> k \<Longrightarrow> map_of (opt_field k c f a) k' = map_of a k'"
  by (simp add: opt_field_def map_of_set_prop_other)

lemmas map_of_field = map_of_set_prop_same map_of_set_prop_other map_of_opt_field_same
  map_of_opt_field_other

lemma rowToActivity_eq:
  "rowToActivity jp row =
     (if \<not> truthy (idx row 0) then Inr None
      else case (if truthy (idx row 7)
                 then map_sum id (\<lambda>v. set_prop ''services'' v (decode_head row))
                        (parse_services jp (idx row 7))
                 else Inr (decode_head row)) of
             Inl e \<Rightarrow> Inl e
           | Inr b \<Rightarrow> Inr (Some (decode_tail row b)))"
  by (cases "parse_services jp (idx row 7)")
    (simp_all add: rowToActivity_def decode_head_def decode_tail_def Let_def cell_simps)

lemma decode_head_map_of:
  "map_of (decode_head row) ''url'' = Some (js_or (idx row 0) (JStr []))"
  "map_of (decode_head row) ''shortName'' = Some (js_or (idx row 1) (JStr []))"
  "map_of (decode_head row) ''alive'' = Some (JBool (is_true_cell (idx row 2)))"
  "map_of (decode_head row) ''lastUpdated'' = Some (js_or (idx row 3) (JStr []))"
  "map_of (decode_head row) ''category'' = (if truthy (idx row 4) then Some (idx row 4) else None)"
  "map_of (decode_head row) ''openHours'' = (if truthy (idx row 5) then Some (idx row 5) else None)"
  "map_of (decode_head row) ''address'' = (if truthy (idx row 6) then Some (idx row 6) else None)"
  "map_of (decode_head row) ''services'' = None"
  "map_of (decode_head row) ''description'' = None"
  "map_of (decode_head row) ''userRating'' = None"
  "map_of (decode_head row) ''drivingMinutes'' = None"
  "map_of (decode_head row) ''transitMinutes'' = None"
  "map_of (decode_head row) ''distanceKm'' = None"
  "map_of (decode_head row) ''userComment'' = None"
  "map_of (decode_head row) ''userRemoved'' = None"
  by (simp_all add: decode_head_def map_of_field)

lemma decode_tail_map_of:
  "map_of (decode_tail row b) ''url'' = map_of b ''url''"
  "map_of (decode_tail row b) ''shortName'' = map_of b ''shortName''"
  "map_of (decode_tail row b) ''alive'' = map_of b ''alive''"
  "map_of (decode_tail row b) ''lastUpdated'' = map_of b ''lastUpdated''"
  "map_of (decode_tail row b) ''category'' = map_of b ''category''"
  "map_of (decode_tail row b) ''openHours'' = map_of b ''openHours''"
  "map_of (decode_tail row b) ''address'' = map_of b ''address''"
  "map_of (decode_tail row b) ''services'' = map_of b ''services''"
  "map_of (decode_tail row b) ''description'' =
     (if truthy (idx row 8) then Some (idx row 8) else map_of b ''description'')"
  "map_of (decode_tail row b) ''userRating'' =
     (if truthy (idx row 9) then Some (JNum (parse_int10 (to_string (idx row 9))))
      else map_of b ''userRating'')"
  "map_of (decode_tail row b) ''drivingMinutes'' =
     (if truthy (idx row 10) then Some (JNum (parse_int10 (to_string (idx row 10))))
      else map_of b ''drivingMinutes'')"
  "map_of (decode_tail row b) ''transitMinutes'' =
     (if truthy (idx row 11) then Some (JNum (parse_int10 (to_string (idx row 11))))
      else map_of b ''transitMinutes'')"
  "map_of (decode_tail row b) ''distanceKm'' =
     (if truthy (idx row 12) then Some (JNum (parse_float (to_string (idx row 12))))
      else map_of b ''distanceKm'')"
  "map_of (decode_tail row b) ''userComment'' =
     (if truthy (idx row 13) then Some (idx row 13) else map_of b ''userComment'')"
  "map_of (decode_tail row b) ''userRemoved'' =
     (if is_true_cell (idx row 14) then Some (JBool True) else map_of b ''userRemoved'')"
  by (simp_all add: decode_tail_def Let_def map_of_field)

lemma collect_Inr: "collect xs = Inr ys \<Longrightarrow> xs = map Inr ys"
  by (induction xs arbitrary: ys) (auto split: sum.splits)

lemma idx_take: "i < n \<Longrightarrow> idx (take n row) i = idx row i"
  by (simp add: idx_def)

lemma collect_map_Inr: "collect (map Inr ds) = Inr ds"
  by (induction ds) auto

lemma js_or_truthy: "truthy a \<Longrightarrow> js_or a b = a"
  by (simp add: js_or_def)

lemma decode_head_take: "decode_head (take 15 row) = decode_head row"
  by (simp add: decode_head_def idx_take)

lemma decode_tail_take: "decode_tail (take 15 row) b = decode_tail row b"
  by (simp add: decode_tail_def idx_take)

lemma rowToActivity_take: "rowToActivity jp (take 15 row) = rowToActivity jp row"
  by (cases "parse_services jp (idx row 7)")
    (simp_all add: rowToActivity_eq decode_head_take decode_tail_take idx_take)

lemma is_true_cell_iff: "is_true_cell c \<longleftrightarrow> c = JStr ''true'' \<or> c = JBool True"
  by (cases c) (auto simp: is_true_cell_def)

lemma rowToActivity_SomeD:
  assumes "rowToActivity jp row = Inr (Some a)"
  shows "truthy (idx row 0)"
    and "\<exists>b. a = decode_tail row b \<and> map_of b ''url'' = Some (idx row 0)
           \<and> map_of b ''alive'' = Some (JBool (is_true_cell (idx row 2)))
           \<and> map_of b ''userRemoved'' = None \<and> map_of b ''userRating'' = None"
proof -
  show t: "truthy (idx row 0)"
    using assms by (auto simp: rowToActivity_eq split: if_splits)
  show "\<exists>b. a = decode_tail row b \<and> map_of b ''url'' = Some (idx row 0)
           \<and> map_of b ''alive'' = Some (JBool (is_true_cell (idx row 2)))
           \<and> map_of b ''userRemoved'' = None \<and> map_of b ''userRating'' = None"
  proof (cases "truthy (idx row 7)")
    case False
    with assms t have "a = decode_tail row (decode_head row)"
      by (simp add: rowToActivity_eq)
    then show ?thesis
      using t by (auto simp: decode_head_map_of js_or_truthy)
  next
    case True
    with assms t obtain v where "a = decode_tail row (set_prop ''services'' v (decode_head row))"
      by (cases "parse_services jp (idx row 7)") (auto simp: rowToActivity_eq)
    then show ?thesis
      using t by (auto simp: decode_head_map_of map_of_field js_or_truthy)
  qed
qed

lemma rowToActivity_url: "rowToActivity jp row = Inr (Some a) \<Longrightarrow> map_of a ''url'' = Some (idx row 0)"
  by (auto dest!: rowToActivity_SomeD(2) simp: decode_tail_map_of)

lemma rowToActivity_alive:
  "rowToActivity jp row = Inr (Some a) \<Longrightarrow> map_of a ''alive'' = Some (JBool (is_true_cell (idx row 2)))"
  by (auto dest!: rowToActivity_SomeD(2) simp: decode_tail_map_of)

lemma rowToActivity_userRemoved:
  "rowToActivity jp row = Inr (Some a) \<Longrightarrow>
     map_of a ''userRemoved'' = (if is_true_cell (idx row 14) then Some (JBool True) else None)"
  by (auto dest!: rowToActivity_SomeD(2) simp: decode_tail_map_of)

lemma rowToActivity_userRating:
  "rowToActivity jp row = Inr (Some a) \<Longrightarrow>
     map_of a ''userRating'' =
       (if truthy (idx row 9) then Some (JNum (parse_int10 (to_string (idx row 9)))) else None)"
  by (auto dest!: rowToActivity_SomeD(2) simp: decode_tail_map_of)

lemma truthy_str: "truthy c \<Longrightarrow> c \<noteq> JStr [] \<and> c \<noteq> JUndefined"
  by (auto simp: truthy_def)

lemma live_Some: "live d = Some a \<longleftrightarrow> d = Some a \<and> \<not> truthy (get_prop a ''userRemoved'')"
  by (auto simp: live_def split: option.splits)

lemma getAllActivities_Inr:
  "getAllActivities jp st = (Inr as, st') \<longleftrightarrow>
     (\<exists>ds. map (rowToActivity jp) (drop 1 (grid st)) = map Inr ds \<and> as = List.map_filter live ds)
     \<and> st' = st\<lparr>calls := calls st @ [ValuesGet A2_O]\<rparr>"
  by (auto simp: getAllActivities_def values_get_def range_values_def drop_map rowToActivity_take
        o_def collect_map_Inr split: sum.splits dest: collect_Inr)


lemma map_filter_mem: "a \<in> set (List.map_filter f xs) \<longleftrightarrow> (\<exists>x \<in> set xs. f x = Some a)"
  by (induction xs) (auto simp: List.map_filter_simps split: option.splits)

lemma getAllActivities_mem:
  assumes "getAllActivities jp st = (Inr as, st')" and "a \<in> set as"
  shows "\<exists>row \<in> set (drop 1 (grid st)).
           rowToActivity jp row = Inr (Some a) \<and> \<not> truthy (get_prop a ''userRemoved'')"
proof -
  from assms(1) obtain ds where ds: "map (rowToActivity jp) (drop 1 (grid st)) = map Inr ds"
    and as: "as = List.map_filter live ds"
    by (auto simp: getAllActivities_Inr)
  from assms(2) as have "Some a \<in> set ds" and nr: "\<not> truthy (get_prop a ''userRemoved'')"
    by (auto simp: map_filter_mem live_Some)
  then have "Inr (Some a) \<in> set (map (rowToActivity jp) (drop 1 (grid st)))"
    unfolding ds by simp
  with nr show ?thesis by auto
qed

section \<open>Reading all activities\<close>

text \<open>
  Claim C2. Whatever the sheet holds, a record that \<open>getAllActivities\<close> returns never has
  \<open>userRemoved\<close> true, it is the decoding of one of the data rows, and no row whose url
  cell is the empty string or missing decodes to it.
\<close>

theorem readAll_excludes_removed_and_urlless:
  assumes "getAllActivities jp st = (Inr as, st')" and "a \<in> set as"
  shows "get_prop a ''userRemoved'' \<noteq> JBool True
       \<and> (\<exists>row \<in> set (drop 1 (grid st)). rowToActivity jp row = Inr (Some a))
       \<and> (\<forall>row. rowToActivity jp row = Inr (Some a) \<longrightarrow>
             idx row 0 \<noteq> JStr [] \<and> idx row 0 \<noteq> JUndefined)"
proof -
  from getAllActivities_mem[OF assms] obtain row where
    "row \<in> set (drop 1 (grid st))" "rowToActivity jp row = Inr (Some a)"
    "\<not> truthy (get_prop a ''userRemoved'')"
    by blast
  moreover have "idx row' 0 \<noteq> JStr [] \<and> idx row' 0 \<noteq> JUndefined"
    if "rowToActivity jp row' = Inr (Some a)" for row'
    using rowToActivity_SomeD(1)[OF that] by (rule truthy_str)
  ultimately show ?thesis
    by (auto simp: truthy_def)
qed

theorem readAll_excludes_removed_and_urlless_witness:
  "getAllActivities no_json store_ex = (Inr [zoo_ex, farm_ex], store_ex\<lparr>calls := [ValuesGet A2_O]\<rparr>)
   \<and> farm_ex \<in> set [zoo_ex, farm_ex]
   \<and> get_prop farm_ex ''userRemoved'' \<noteq> JBool True
   \<and> (\<exists>row \<in> set (drop 1 (grid store_ex)). rowToActivity no_json row = Inr (Some farm_ex))"
proof -
  have h: "getAllActivities no_json store_ex =
             (Inr [zoo_ex, farm_ex], store_ex\<lparr>calls := [ValuesGet A2_O]\<rparr>)"
    by code_simp
  have m: "farm_ex \<in> set [zoo_ex, farm_ex]"
    by simp
  from readAll_excludes_removed_and_urlless[OF h m] h m show ?thesis
    by blast
qed

lemma scan_rows_None:
  "scan_rows rows i url = None \<longleftrightarrow> (\<forall>r \<in> set rows. \<not> strict_eq (idx r 0) url)"
  by (induction rows arbitrary: i) auto

lemma findActivityRowIndex_eq:
  "findActivityRowIndex url st =
     (scan_rows (drop 1 (grid st)) 1 url, st\<lparr>calls := calls st @ [ValuesGet A_A]\<rparr>)"
proof -
  have "scan_rows (map (take 1) rows) i url = scan_rows rows i url" for rows i
    by (induction rows arbitrary: i) (simp_all add: idx_take)
  then show ?thesis
    by (simp add: findActivityRowIndex_def values_get_def range_values_def drop_map)
qed

section \<open>Updating one field\<close>

text \<open>
  Claim C3. When the url equals the first cell of no data row, \<open>updateActivityField\<close>
  throws "Activity not found" after its one read of the key column: the grid is the
  one before the call and no write has been issued.
\<close>

theorem updateField_unknown_url_not_found:
  assumes "\<forall>row \<in> set (drop 1 (grid st)). \<not> strict_eq (idx row 0) url"
  shows "updateActivityField jp url field v st =
           (Inl ActivityNotFound, st\<lparr>calls := calls st @ [ValuesGet A_A]\<rparr>)
       \<and> grid (snd (updateActivityField jp url field v st)) = grid st
       \<and> filter is_write (calls (snd (updateActivityField jp url field v st)))
           = filter is_write (calls st)"
proof -
  from assms have "scan_rows (drop 1 (grid st)) 1 url = None"
    by (simp add: scan_rows_None)
  then have "updateActivityField jp url field v st =
           (Inl ActivityNotFound, st\<lparr>calls := calls st @ [ValuesGet A_A]\<rparr>)"
    by (simp add: updateActivityField_def findActivityRowIndex_eq)
  then show ?thesis by (simp add: is_write_def)
qed

theorem updateField_unknown_url_not_found_witness:
  "updateActivityField no_json (JStr ''https://nowhere'') ''userRating'' (JNum (Dec 4 0)) store_ex =
     (Inl ActivityNotFound, store_ex\<lparr>calls := [ValuesGet A_A]\<rparr>)
   \<and> grid (snd (updateActivityField no_json (JStr ''https://nowhere'') ''userRating'' (JNum (Dec 4 0)) store_ex))
       = sheet_ex"
proof -
  have h: "\<forall>row \<in> set (drop 1 (grid store_ex)). \<not> strict_eq (idx row 0) (JStr ''https://nowhere'')"
    by (simp add: store_ex_def sheet_ex_def idx_def)
  from updateField_unknown_url_not_found[OF h, of no_json "''userRating''" "JNum (Dec 4 0)"]
  show ?thesis
    by (simp add: store_ex_def)
qed

section \<open>Boolean columns\<close>

text \<open>
  Claim C7. In a decoded record \<open>alive\<close> is true exactly when its cell is the string
  \<open>true\<close> or the boolean true, and \<open>userRemoved\<close> is present (and true) exactly then too:
  any other cell, such as \<open>TRUE\<close> or \<open>1\<close>, gives \<open>alive = false\<close> and leaves
  \<open>userRemoved\<close> out.
\<close>

theorem decode_booleans_exact:
  assumes "rowToActivity jp row = Inr (Some a)"
  shows "get_prop a ''alive'' = JBool (idx row 2 = JStr ''true'' \<or> idx row 2 = JBool True)
       \<and> map_of a ''userRemoved'' =
           (if idx row 14 = JStr ''true'' \<or> idx row 14 = JBool True then Some (JBool True) else None)"
  using rowToActivity_alive[OF assms] rowToActivity_userRemoved[OF assms]
  by (simp add: get_prop_def is_true_cell_iff)

theorem decode_booleans_exact_witness:
  "rowToActivity no_json (sheet_ex ! 2) =
     Inr (Some [(''url'', JStr ''https://b''), (''shortName'', JStr ''Pool''), (''alive'', JBool False),
                (''lastUpdated'', JStr ''2024-02-02''), (''userRating'', JNum (Dec 9 0)),
                (''userRemoved'', JBool True)])
   \<and> idx (sheet_ex ! 2) 2 = JStr ''TRUE'' \<and> idx (sheet_ex ! 2) 14 = JStr ''true''
   \<and> rowToActivity no_json (sheet_ex ! 4) = Inr (Some farm_ex)
   \<and> idx (sheet_ex ! 4) 2 = JBool True \<and> idx (sheet_ex ! 4) 14 = JStr ''1''
   \<and> get_prop farm_ex ''alive'' = JBool True \<and> map_of farm_ex ''userRemoved'' = None"
proof -
  have h: "rowToActivity no_json (sheet_ex ! 4) = Inr (Some farm_ex)"
    by code_simp
  have c: "idx (sheet_ex ! 4) 2 = JBool True" "idx (sheet_ex ! 4) 14 = JStr ''1''"
    "idx (sheet_ex ! 2) 2 = JStr ''TRUE''" "idx (sheet_ex ! 2) 14 = JStr ''true''"
    by code_simp+
  have b: "rowToActivity no_json (sheet_ex ! 2) =
     Inr (Some [(''url'', JStr ''https://b''), (''shortName'', JStr ''Pool''), (''alive'', JBool False),
                (''lastUpdated'', JStr ''2024-02-02''), (''userRating'', JNum (Dec 9 0)),
                (''userRemoved'', JBool True)])"
    by code_simp
  from decode_booleans_exact[OF h] h b c show ?thesis
    by simp
qed

lemma encode_fill:
  "put ''userRemoved'' v14 (put ''userComment'' v13 (put ''distanceKm'' v12
    (put ''transitMinutes'' v11 (put ''drivingMinutes'' v10 (put ''userRating'' v9
      (put ''description'' v8 (put ''services'' v7 (put ''address'' v6 (put ''openHours'' v5
        (put ''category'' v4 (put ''lastUpdated'' v3 (put ''alive'' v2 (put ''shortName'' v1
          (put ''url'' v0 (replicate (length HEADER_ROW) z)))))))))))))))
   = [v0, v1, v2, v3, v4, v5, v6, v7, v8, v9, v10, v11, v12, v13, v14]"
  by (simp add: put_def COLUMNS_def arr_set_def HEADER_ROW_def eval_nat_numeral)

lemma activityToRow_cells:
  "activityToRow a =
     [js_or (get_prop a ''url'') (JStr []),
      js_or (get_prop a ''shortName'') (JStr []),
      JStr (if truthy (get_prop a ''alive'') then ''true'' else ''false''),
      js_or (get_prop a ''lastUpdated'') (JStr []),
      js_or (get_prop a ''category'') (JStr []),
      js_or (get_prop a ''openHours'') (JStr []),
      js_or (get_prop a ''address'') (JStr []),
      (if truthy (get_prop a ''services'') then JSON_stringify (get_prop a ''services'') else JStr []),
      js_or (get_prop a ''description'') (JStr []),
      num_cell (get_prop a ''userRating''),
      num_cell (get_prop a ''drivingMinutes''),
      num_cell (get_prop a ''transitMinutes''),
      num_cell (get_prop a ''distanceKm''),
      js_or (get_prop a ''userComment'') (JStr []),
      JStr (if truthy (get_prop a ''userRemoved'') then ''true'' else [])]"
  unfolding activityToRow_def Let_def by (rule encode_fill)


lemma cell_row_simps:
  "cell [v0, v1, v2, v3, v4, v5, v6, v7, v8, v9, v10, v11, v12, v13, v14] ''url'' = v0"
  "cell [v0, v1, v2, v3, v4, v5, v6, v7, v8, v9, v10, v11, v12, v13, v14] ''shortName'' = v1"
  "cell [v0, v1, v2, v3, v4, v5, v6, v7, v8, v9, v10, v11, v12, v13, v14] ''alive'' = v2"
  "cell [v0, v1, v2, v3, v4, v5, v6, v7, v8, v9, v10, v11, v12, v13, v14] ''lastUpdated'' = v3"
  "cell [v0, v1, v2, v3, v4, v5, v6, v7, v8, v9, v10, v11, v12, v13, v14] ''category'' = v4"
  "cell [v0, v1, v2, v3, v4, v5, v6, v7, v8, v9, v10, v11, v12, v13, v14] ''openHours'' = v5"
  "cell [v0, v1, v2, v3, v4, v5, v6, v7, v8, v9, v10, v11, v12, v13, v14] ''address'' = v6"
  "cell [v0, v1, v2, v3, v4, v5, v6, v7, v8, v9, v10, v11, v12, v13, v14] ''services'' = v7"
  "cell [v0, v1, v2, v3, v4, v5, v6, v7, v8, v9, v10, v11, v12, v13, v14] ''description'' = v8"
  "cell [v0, v1, v2, v3, v4, v5, v6, v7, v8, v9, v10, v11, v12, v13, v14] ''userRating'' = v9"
  "cell [v0, v1, v2, v3, v4, v5, v6, v7, v8, v9, v10, v11, v12, v13, v14] ''drivingMinutes'' = v10"
  "cell [v0, v1, v2, v3, v4, v5, v6, v7, v8, v9, v10, v11, v12, v13, v14] ''transitMinutes'' = v11"
  "cell [v0, v1, v2, v3, v4, v5, v6, v7, v8, v9, v10, v11, v12, v13, v14] ''distanceKm'' = v12"
  "cell [v0, v1, v2, v3, v4, v5, v6, v7, v8, v9, v10, v11, v12, v13, v14] ''userComment'' = v13"
  "cell [v0, v1, v2, v3, v4, v5, v6, v7, v8, v9, v10, v11, v12, v13, v14] ''userRemoved'' = v14"
  by (simp_all add: cell_simps idx_def)

lemma blank_unset:
  "js_or JUndefined (JStr []) = JStr []" "num_cell JUndefined = JStr []" "\<not> truthy JUndefined"
  by (simp_all add: js_or_def num_cell_def truthy_def not_nullish_def)

section \<open>Encoding a record\<close>

text \<open>
  Claim C8. \<open>activityToRow\<close> produces exactly 15 cells, and column by column they are
  the encodings of url, shortName, alive, lastUpdated, category, openHours, address,
  services, description, userRating, drivingMinutes, transitMinutes, distanceKm,
  userComment and userRemoved: the order of \<open>HEADER_ROW\<close>, whose \<open>i\<close>-th name
  \<open>COLUMNS\<close> maps to \<open>i\<close>. An optional field that is unset is the empty string;
  \<open>alive\<close> is the text \<open>true\<close> or \<open>false\<close>; \<open>userRemoved\<close> is \<open>true\<close> or the empty
  string, never \<open>false\<close>.
\<close>

theorem encode_row_shape:
  "activityToRow a =
     [js_or (get_prop a ''url'') (JStr []),
      js_or (get_prop a ''shortName'') (JStr []),
      JStr (if truthy (get_prop a ''alive'') then ''true'' else ''false''),
      js_or (get_prop a ''lastUpdated'') (JStr []),
      js_or (get_prop a ''category'') (JStr []),
      js_or (get_prop a ''openHours'') (JStr []),
      js_or (get_prop a ''address'') (JStr []),
      (if truthy (get_prop a ''services'') then JSON_stringify (get_prop a ''services'') else JStr []),
      js_or (get_prop a ''description'') (JStr []),
      num_cell (get_prop a ''userRating''),
      num_cell (get_prop a ''drivingMinutes''),
      num_cell (get_prop a ''transitMinutes''),
      num_cell (get_prop a ''distanceKm''),
      js_or (get_prop a ''userComment'') (JStr []),
      JStr (if truthy (get_prop a ''userRemoved'') then ''true'' else [])]
   \<and> length (activityToRow a) = 15
   \<and> HEADER_ROW =
       [''url'', ''shortName'', ''alive'', ''lastUpdated'', ''category'', ''openHours'',
        ''address'', ''services'', ''description'', ''userRating'', ''drivingMinutes'',
        ''transitMinutes'', ''distanceKm'', ''userComment'', ''userRemoved'']
   \<and> map (map_of COLUMNS) HEADER_ROW = map Some [0 ..< 15]
   \<and> (\<forall>k \<in> set [''category'', ''openHours'', ''address'', ''services'', ''description'',
                  ''userRating'', ''drivingMinutes'', ''transitMinutes'', ''distanceKm'',
                  ''userComment''].
         get_prop a k = JUndefined \<longrightarrow> cell (activityToRow a) k = JStr [])
   \<and> cell (activityToRow a) ''alive'' = JStr (if truthy (get_prop a ''alive'') then ''true'' else ''false'')
   \<and> cell (activityToRow a) ''userRemoved'' = JStr (if truthy (get_prop a ''userRemoved'') then ''true'' else [])
   \<and> cell (activityToRow a) ''userRemoved'' \<noteq> JStr ''false''"
proof (intro conjI ballI)
  show "activityToRow a =
     [js_or (get_prop a ''url'') (JStr []),
      js_or (get_prop a ''shortName'') (JStr []),
      JStr (if truthy (get_prop a ''alive'') then ''true'' else ''false''),
      js_or (get_prop a ''lastUpdated'') (JStr []),
      js_or (get_prop a ''category'') (JStr []),
      js_or (get_prop a ''openHours'') (JStr []),
      js_or (get_prop a ''address'') (JStr []),
      (if truthy (get_prop a ''services'') then JSON_stringify (get_prop a ''services'') else JStr []),
      js_or (get_prop a ''description'') (JStr []),
      num_cell (get_prop a ''userRating''),
      num_cell (get_prop a ''drivingMinutes''),
      num_cell (get_prop a ''transitMinutes''),
      num_cell (get_prop a ''distanceKm''),
      js_or (get_prop a ''userComment'') (JStr []),
      JStr (if truthy (get_prop a ''userRemoved'') then ''true'' else [])]"
    by (rule activityToRow_cells)
  show "length (activityToRow a) = 15"
    by (simp add: activityToRow_cells)
  show "HEADER_ROW =
       [''url'', ''shortName'', ''alive'', ''lastUpdated'', ''category'', ''openHours'',
        ''address'', ''services'', ''description'', ''userRating'', ''drivingMinutes'',
        ''transitMinutes'', ''distanceKm'', ''userComment'', ''userRemoved'']"
    by (rule HEADER_ROW_def)
  show "map (map_of COLUMNS) HEADER_ROW = map Some [0 ..< 15]"
    by code_simp
  show "get_prop a k = JUndefined \<longrightarrow> cell (activityToRow a) k = JStr []"
    if "k \<in> set [''category'', ''openHours'', ''address'', ''services'', ''description'',
                  ''userRating'', ''drivingMinutes'', ''transitMinutes'', ''distanceKm'',
                  ''userComment'']" for k
    using that unfolding activityToRow_cells
    by (auto simp: cell_row_simps blank_unset)
  show "cell (activityToRow a) ''alive''
      = JStr (if truthy (get_prop a ''alive'') then ''true'' else ''false'')"
    unfolding activityToRow_cells by (simp only: cell_row_simps)
  show "cell (activityToRow a) ''userRemoved''
      = JStr (if truthy (get_prop a ''userRemoved'') then ''true'' else [])"
    unfolding activityToRow_cells by (simp only: cell_row_simps)
  show "cell (activityToRow a) ''userRemoved'' \<noteq> JStr ''false''"
    unfolding activityToRow_cells by (simp add: cell_row_simps)
qed

theorem encode_row_shape_witness:
  "get_prop farm_ex ''services'' = JUndefined
   \<and> cell (activityToRow farm_ex) ''services'' = JStr []
   \<and> activityToRow farm_ex =
       map JStr [''https://c'', ''Farm'', ''true'', [], [], [], [], [], [], ''9'', [], [], [], [], []]"
proof -
  have u: "get_prop farm_ex ''services'' = JUndefined"
    by code_simp
  have r: "activityToRow farm_ex =
       map JStr [''https://c'', ''Farm'', ''true'', [], [], [], [], [], [], ''9'', [], [], [], [], []]"
    by code_simp
  note unset = encode_row_shape[of farm_ex, THEN conjunct2, THEN conjunct2, THEN conjunct2,
      THEN conjunct2, THEN conjunct1]
  have "''services'' \<in> set [''category'', ''openHours'', ''address'', ''services'', ''description'',
                  ''userRating'', ''drivingMinutes'', ''transitMinutes'', ''distanceKm'',
                  ''userComment'']"
    by simp
  with unset have "get_prop farm_ex ''services'' = JUndefined
      \<longrightarrow> cell (activityToRow farm_ex) ''services'' = JStr []"
    by (rule bspec)
  with u r show ?thesis by simp
qed

lemma getAllActivities_memI:
  assumes "getAllActivities jp st = (Inr as, st')" and "row \<in> set (drop 1 (grid st))"
    and "rowToActivity jp row = Inr (Some a)" and "\<not> truthy (get_prop a ''userRemoved'')"
  shows "a \<in> set as"
proof -
  from assms(1) obtain ds where ds: "map (rowToActivity jp) (drop 1 (grid st)) = map Inr ds"
    and as: "as = List.map_filter live ds"
    by (auto simp: getAllActivities_Inr)
  from assms(2,3) have "Inr (Some a) \<in> set (map (rowToActivity jp) (drop 1 (grid st)))"
    by force
  then have "Some a \<in> set ds"
    unfolding ds by auto
  with assms(4) show ?thesis
    by (auto simp: as map_filter_mem live_Some)
qed

section \<open>Ratings are read without a range check\<close>

text \<open>
  Claim C10. A row whose userRating cell is a non-empty string decodes to a record whose
  \<open>userRating\<close> is \<open>parseInt\<close> of that string, whatever its value, and
  \<open>getAllActivities\<close> returns that record unchanged unless it is removed.
\<close>

theorem decode_rating_unchecked:
  assumes "rowToActivity jp row = Inr (Some a)" and "idx row 9 = JStr s" and "s \<noteq> []"
  shows "get_prop a ''userRating'' = JNum (parse_int10 s)
       \<and> (\<forall>st as st'. getAllActivities jp st = (Inr as, st') \<and> row \<in> set (drop 1 (grid st))
              \<and> \<not> truthy (get_prop a ''userRemoved'') \<longrightarrow> a \<in> set as)"
proof -
  from assms(2,3) have "truthy (idx row 9)" "to_string (idx row 9) = s"
    by (simp_all add: truthy_def)
  with rowToActivity_userRating[OF assms(1)] have "get_prop a ''userRating'' = JNum (parse_int10 s)"
    by (simp add: get_prop_def)
  with getAllActivities_memI[OF _ _ assms(1)] show ?thesis
    by blast
qed

theorem decode_rating_unchecked_witness:
  "rowToActivity no_json (sheet_ex ! 4) = Inr (Some farm_ex)
   \<and> idx (sheet_ex ! 4) 9 = JStr ''9''
   \<and> get_prop farm_ex ''userRating'' = JNum (Dec 9 0)
   \<and> num_less (Dec 5 0) (Dec 9 0)
   \<and> getAllActivities no_json store_ex = (Inr [zoo_ex, farm_ex], store_ex\<lparr>calls := [ValuesGet A2_O]\<rparr>)
   \<and> farm_ex \<in> set [zoo_ex, farm_ex]"
proof -
  have h: "rowToActivity no_json (sheet_ex ! 4) = Inr (Some farm_ex)"
    by code_simp
  have c: "idx (sheet_ex ! 4) 9 = JStr ''9''" and n: "''9'' \<noteq> []"
    and p: "parse_int10 ''9'' = Dec 9 0" and l: "num_less (Dec 5 0) (Dec 9 0)"
    by code_simp+
  have g: "getAllActivities no_json store_ex =
             (Inr [zoo_ex, farm_ex], store_ex\<lparr>calls := [ValuesGet A2_O]\<rparr>)"
    by code_simp
  from decode_rating_unchecked[OF h c n] p have "get_prop farm_ex ''userRating'' = JNum (Dec 9 0)"
    by simp
  with h c l g show ?thesis by simp
qed

lemma snd_getAllActivities:
  "snd (getAllActivities jp st) = st\<lparr>calls := calls st @ [ValuesGet A2_O]\<rparr>"
  by (simp add: getAllActivities_def values_get_def split: sum.splits)

lemma scan_rows_Some:
  "scan_rows rows i url = Some r \<Longrightarrow>
     i < r \<and> r \<le> i + length rows \<and> strict_eq (idx (rows ! (r - i - 1)) 0) url
     \<and> (\<forall>j < r - i - 1. \<not> strict_eq (idx (rows ! j) 0) url)"
proof (induction rows arbitrary: i)
  case Nil
  then show ?case by simp
next
  case (Cons x xs)
  show ?case
  proof (cases "strict_eq (idx x 0) url")
    case True
    with Cons.prems show ?thesis by auto
  next
    case False
    with Cons.prems have s: "scan_rows xs (i + 1) url = Some r" by simp
    from Cons.IH[OF s] have b: "i + 1 < r" "r \<le> i + 1 + length xs"
      and m: "strict_eq (idx (xs ! (r - (i + 1) - 1)) 0) url"
      and n: "\<forall>j < r - (i + 1) - 1. \<not> strict_eq (idx (xs ! j) 0) url"
      by auto
    from b have e: "r - i - 1 = Suc (r - (i + 1) - 1)" by simp
    have "\<not> strict_eq (idx ((x # xs) ! j) 0) url" if "j < r - i - 1" for j
      using that False n e by (cases j) auto
    with b m e show ?thesis by auto
  qed
qed

lemma COLUMNS_bound: "map_of COLUMNS field = Some c \<Longrightarrow> c < 15"
  by (auto simp: COLUMNS_def split: if_splits)

lemma col_of_columnLetter: "c < 15 \<Longrightarrow> col_of (columnLetter c) = c"
  by (simp add: col_of_def columnLetter_def)

lemma updateActivityField_found:
  assumes "scan_rows (drop 1 (grid st)) 1 url = Some r" and "map_of COLUMNS field = Some c"
  shows "updateActivityField jp url field v st =
     (case fst (getAllActivities jp (after_write r c v st)) of
        Inl e \<Rightarrow> Inl e
      | Inr as \<Rightarrow> Inr (find (\<lambda>a. strict_eq (get_prop a ''url'') url) as),
      (after_write r c v st)\<lparr>calls := calls (after_write r c v st) @ [ValuesGet A2_O]\<rparr>)"
proof -
  from scan_rows_Some[OF assms(1)] have r: "r \<noteq> 0" by simp
  have w: "values_update (CellAt (columnLetter c) r) [[format_cell v]]
             (st\<lparr>calls := calls st @ [ValuesGet A_A]\<rparr>) = after_write r c v st"
    using COLUMNS_bound[OF assms(2)]
    by (simp add: values_update_def range_origin_def col_of_columnLetter after_write_def)
  obtain res st3 where g: "getAllActivities jp (after_write r c v st) = (res, st3)"
    by (cases "getAllActivities jp (after_write r c v st)")
  with snd_getAllActivities[of jp "after_write r c v st"]
  have st3: "st3 = (after_write r c v st)\<lparr>calls := calls (after_write r c v st) @ [ValuesGet A2_O]\<rparr>"
    by simp
  show ?thesis
    using assms r
    by (simp add: updateActivityField_def findActivityRowIndex_eq w g st3 split: sum.splits)
qed

lemma updateActivityField_not_found:
  assumes "scan_rows (drop 1 (grid st)) 1 url = None"
  shows "updateActivityField jp url field v st =
           (Inl ActivityNotFound, st\<lparr>calls := calls st @ [ValuesGet A_A]\<rparr>)"
  using assms by (simp add: updateActivityField_def findActivityRowIndex_eq)

lemma updateActivityField_unknown_field:
  assumes "scan_rows (drop 1 (grid st)) 1 url = Some r" and "map_of COLUMNS field = None"
  shows "updateActivityField jp url field v st =
           (Inl (UnknownField field), st\<lparr>calls := calls st @ [ValuesGet A_A]\<rparr>)"
  using assms scan_rows_Some[OF assms(1)]
  by (simp add: updateActivityField_def findActivityRowIndex_eq)

lemma updateActivityField_calls:
  "\<exists>cs. calls (snd (updateActivityField jp url field v st)) = calls st @ ValuesGet A_A # cs"
proof (cases "scan_rows (drop 1 (grid st)) 1 url")
  case None
  then show ?thesis by (simp add: updateActivityField_not_found)
next
  case (Some r)
  show ?thesis
  proof (cases "map_of COLUMNS field")
    case None
    with Some show ?thesis by (simp add: updateActivityField_unknown_field)
  next
    case (Some c)
    with \<open>scan_rows (drop 1 (grid st)) 1 url = Some r\<close> show ?thesis
      by (simp add: updateActivityField_found after_write_def)
  qed
qed


lemma handler_validated:
  assumes "httpMethod ev = ''PUT''" and "jp (to_string (body ev)) = Some (JObj kvs)"
    and "truthy (get_prop kvs ''url'')" and "\<not> rating_rejected (get_prop kvs ''rating'')"
  shows "snd (handler jp ev st)
           = snd (updateActivityField jp (get_prop kvs ''url'') ''userRating'' (get_prop kvs ''rating'') st)"
    and "statusCode (fst (handler jp ev st))
           = (case fst (updateActivityField jp (get_prop kvs ''url'') ''userRating''
                          (get_prop kvs ''rating'') st) of
                Inr activity \<Rightarrow> 200
              | Inl e \<Rightarrow> if e = ActivityNotFound then 404 else 500)"
  using assms
  by (auto simp: handler_def body_field_def error_response_def split: prod.splits sum.splits)

lemma handler_rejected:
  assumes "httpMethod ev = ''PUT''" and "jp (to_string (body ev)) = Some (JObj kvs)"
    and "rating_rejected (get_prop kvs ''rating'')"
  shows "handler jp ev st =
           (error_response 400 (if truthy (get_prop kvs ''url'') then ''Rating must be between 1 and 5''
                                else ''URL is required''), st)"
  using assms by (simp add: handler_def body_field_def)

section \<open>Validation in the rating handler\<close>

text \<open>
  Claim C6. A PUT whose body has a number below 1 or above 5 as its rating is answered
  with status 400 and the store is the one before the call (no call of the sheets API is
  recorded); a rating of \<open>null\<close> with a url is not answered with 400 and the store is
  reached: the read of the key column is recorded.
\<close>

theorem rating_out_of_range_rejected:
  assumes "httpMethod ev = ''PUT''" and "jp (to_string (body ev)) = Some (JObj kvs)"
  shows "(get_prop kvs ''rating'' = JNum x \<and> (num_less x (Dec 1 0) \<or> num_less (Dec 5 0) x)
            \<longrightarrow> statusCode (fst (handler jp ev st)) = 400 \<and> snd (handler jp ev st) = st)
       \<and> (get_prop kvs ''rating'' = JNull \<and> truthy (get_prop kvs ''url'')
            \<longrightarrow> statusCode (fst (handler jp ev st)) \<noteq> 400
              \<and> (\<exists>cs. calls (snd (handler jp ev st)) = calls st @ ValuesGet A_A # cs))"
proof (intro conjI impI)
  assume a: "get_prop kvs ''rating'' = JNum x \<and> (num_less x (Dec 1 0) \<or> num_less (Dec 5 0) x)"
  then have "rating_rejected (get_prop kvs ''rating'')"
    by (auto simp: rating_rejected_def to_number_def)
  from handler_rejected[where jp=jp and ev=ev and kvs=kvs and st=st, OF assms this]
  show "statusCode (fst (handler jp ev st)) = 400" and "snd (handler jp ev st) = st"
    by (simp_all add: error_response_def)
next
  assume a: "get_prop kvs ''rating'' = JNull \<and> truthy (get_prop kvs ''url'')"
  then have n: "\<not> rating_rejected (get_prop kvs ''rating'')"
    by (simp add: rating_rejected_def)
  from a have u: "truthy (get_prop kvs ''url'')" by simp
  from handler_validated(2)[where jp=jp and ev=ev and kvs=kvs and st=st, OF assms u n]
  show "statusCode (fst (handler jp ev st)) \<noteq> 400"
    by (simp split: sum.splits if_splits)
  from handler_validated(1)[where jp=jp and ev=ev and kvs=kvs and st=st, OF assms u n] updateActivityField_calls
  show "\<exists>cs. calls (snd (handler jp ev st)) = calls st @ ValuesGet A_A # cs"
    by simp
qed

theorem rating_out_of_range_rejected_witness:
  "statusCode (fst (handler (parse_as (JObj [(''url'', JStr ''https://a''), (''rating'', JNum (Dec 6 0))]))
                      put_event store_ex)) = 400
   \<and> snd (handler (parse_as (JObj [(''url'', JStr ''https://a''), (''rating'', JNum (Dec 6 0))]))
                      put_event store_ex) = store_ex
   \<and> statusCode (fst (handler (parse_as (JObj [(''url'', JStr ''https://a''), (''rating'', JNum (Dec 0 0))]))
                      put_event store_ex)) = 400
   \<and> snd (handler (parse_as (JObj [(''url'', JStr ''https://a''), (''rating'', JNum (Dec 0 0))]))
                      put_event store_ex) = store_ex
   \<and> statusCode (fst (handler (parse_as (JObj [(''url'', JStr ''https://a''), (''rating'', JNull)]))
                      put_event store_ex)) \<noteq> 400
   \<and> (\<exists>cs. calls (snd (handler (parse_as (JObj [(''url'', JStr ''https://a''), (''rating'', JNull)]))
                      put_event store_ex)) = calls store_ex @ ValuesGet A_A # cs)"
proof -
  have m: "httpMethod put_event = ''PUT''"
    by (simp add: put_event_def)
  have p: "parse_as v (to_string (body put_event)) = Some v" for v
    by (simp add: parse_as_def)
  have six: "get_prop [(''url'', JStr ''https://a''), (''rating'', JNum (Dec 6 0))] ''rating'' = JNum (Dec 6 0)
             \<and> (num_less (Dec 6 0) (Dec 1 0) \<or> num_less (Dec 5 0) (Dec 6 0))"
    by (simp add: get_prop_def dec_less_def)
  have zero: "get_prop [(''url'', JStr ''https://a''), (''rating'', JNum (Dec 0 0))] ''rating'' = JNum (Dec 0 0)
             \<and> (num_less (Dec 0 0) (Dec 1 0) \<or> num_less (Dec 5 0) (Dec 0 0))"
    by (simp add: get_prop_def dec_less_def)
  have null: "get_prop [(''url'', JStr ''https://a''), (''rating'', JNull)] ''rating'' = JNull
             \<and> truthy (get_prop [(''url'', JStr ''https://a''), (''rating'', JNull)] ''url'')"
    by (simp add: get_prop_def truthy_def)
  from rating_out_of_range_rejected[where jp="parse_as (JObj [(''url'', JStr ''https://a''), (''rating'', JNum (Dec 6 0))])"
         and ev=put_event and x="Dec 6 0" and st=store_ex, OF m p] six
       rating_out_of_range_rejected[where jp="parse_as (JObj [(''url'', JStr ''https://a''), (''rating'', JNum (Dec 0 0))])"
         and ev=put_event and x="Dec 0 0" and st=store_ex, OF m p] zero
       rating_out_of_range_rejected[where jp="parse_as (JObj [(''url'', JStr ''https://a''), (''rating'', JNull)])"
         and ev=put_event and st=store_ex, OF m p] null
  show ?thesis
    by blast
qed

lemma write_run_inside:
  assumes "r < length g"
  shows "write_run r c [v] g =
           g[r := take c (g ! r @ replicate (Suc c - length (g ! r)) (JStr [])) @ v
                  # drop (Suc c) (g ! r @ replicate (Suc c - length (g ! r)) (JStr []))]"
  using assms by (simp add: write_run_def Let_def)

lemma write_run_length: "r < length g \<Longrightarrow> length (write_run r c [v] g) = length g"
  by (simp add: write_run_inside)

lemma write_run_other_row: "r < length g \<Longrightarrow> j \<noteq> r \<Longrightarrow> write_run r c [v] g ! j = g ! j"
  by (simp add: write_run_inside)

lemma padded_length: "c < length (padded old c)"
  by (simp add: padded_def)

lemma padded_nth:
  "i < length (padded old c) \<Longrightarrow> padded old c ! i = (if i < length old then old ! i else JStr [])"
  by (simp add: padded_def nth_append)

lemma padded_length_eq: "length (padded old c) = max (length old) (Suc c)"
  by (simp add: padded_def)

lemma write_run_row:
  "r < length g \<Longrightarrow> write_run r c [v] g ! r = take c (padded (g ! r) c) @ v # drop (Suc c) (padded (g ! r) c)"
  by (simp add: write_run_inside padded_def)

lemma write_run_target: "r < length g \<Longrightarrow> idx (write_run r c [v] g ! r) c = v"
proof -
  assume "r < length g"
  then have row: "write_run r c [v] g ! r
      = take c (padded (g ! r) c) @ v # drop (Suc c) (padded (g ! r) c)"
    by (rule write_run_row)
  have l: "length (take c (padded (g ! r) c)) = c"
    using padded_length[of c "g ! r"] by simp
  show ?thesis
    unfolding row idx_def using l nth_append_length[of "take c (padded (g ! r) c)" v]
    by simp
qed

lemma write_run_other_cell:
  assumes "r < length g" and "c' \<noteq> c"
  shows "idx (write_run r c [v] g ! r) c' =
           (if c' < length (g ! r) then g ! r ! c' else if c' < c then JStr [] else JUndefined)"
proof -
  let ?p = "padded (g ! r) c"
  have row: "write_run r c [v] g ! r = take c ?p @ v # drop (Suc c) ?p"
    using assms(1) by (rule write_run_row)
  have l: "length (take c ?p) = c"
    using padded_length[of c "g ! r"] by simp
  have id: "take c ?p @ v # drop (Suc c) ?p = ?p[c := v]"
    using padded_length[of c "g ! r"] by (simp add: upd_conv_take_nth_drop)
  have "idx (?p[c := v]) c' = (if c' < length ?p then ?p ! c' else JUndefined)"
    using assms(2) by (simp add: idx_def)
  also have "\<dots> = (if c' < length (g ! r) then g ! r ! c' else if c' < c then JStr [] else JUndefined)"
    using assms(2) by (auto simp: padded_nth padded_length_eq)
  finally show ?thesis
    by (simp add: row id)
qed


lemma found_row_bounds:
  assumes "fst (findActivityRowIndex url st) = Some r"
  shows "scan_rows (drop 1 (grid st)) 1 url = Some r" and "2 \<le> r" and "r - 1 < length (grid st)"
    and "strict_eq (idx (grid st ! (r - 1)) 0) url"
    and "\<forall>j. 1 \<le> j \<and> j < r - 1 \<longrightarrow> \<not> strict_eq (idx (grid st ! j) 0) url"
proof -
  from assms show s: "scan_rows (drop 1 (grid st)) 1 url = Some r"
    by (simp add: findActivityRowIndex_eq)
  from scan_rows_Some[OF s] have b: "1 < r" "r \<le> 1 + length (drop 1 (grid st))"
    and m: "strict_eq (idx (drop 1 (grid st) ! (r - 1 - 1)) 0) url"
    and n: "\<forall>j < r - 1 - 1. \<not> strict_eq (idx (drop 1 (grid st) ! j) 0) url"
    by auto
  from b show "2 \<le> r" and l: "r - 1 < length (grid st)"
    by auto
  from b have "Suc (r - 1 - 1) = r - 1" by simp
  with b l m show "strict_eq (idx (grid st ! (r - 1)) 0) url"
    by (simp add: nth_drop)
  show "\<forall>j. 1 \<le> j \<and> j < r - 1 \<longrightarrow> \<not> strict_eq (idx (grid st ! j) 0) url"
  proof (intro allI impI)
    fix j assume j: "1 \<le> j \<and> j < r - 1"
    then have "j - 1 < r - 1 - 1" by auto
    with n have "\<not> strict_eq (idx (drop 1 (grid st) ! (j - 1)) 0) url" by blast
    moreover from j l have "drop 1 (grid st) ! (j - 1) = grid st ! j"
      by (simp add: nth_drop)
    ultimately show "\<not> strict_eq (idx (grid st ! j) 0) url" by simp
  qed
qed

lemma nan_not_less: "\<not> num_less NaN y" "\<not> num_less x NaN"
  by (cases x; simp)+

section \<open>Ratings that are not numbers\<close>

text \<open>
  Claim C9 says that a body with a url and a rating that is missing or not a number
  always passes the range check. The check compares after \<^verbatim>\<open>ToNumber\<close>: the empty
  string and \<open>false\<close> are 0 there, so both are answered with 400 and the store is not
  touched.
\<close>

theorem nonnumeric_rating_rejected_counterexample:
  "statusCode (fst (handler (parse_as (JObj [(''url'', JStr ''https://a''), (''rating'', JStr [])]))
                      put_event store_ex)) = 400
   \<and> snd (handler (parse_as (JObj [(''url'', JStr ''https://a''), (''rating'', JStr [])]))
                      put_event store_ex) = store_ex
   \<and> statusCode (fst (handler (parse_as (JObj [(''url'', JStr ''https://a''), (''rating'', JBool False)]))
                      put_event store_ex)) = 400
   \<and> snd (handler (parse_as (JObj [(''url'', JStr ''https://a''), (''rating'', JBool False)]))
                      put_event store_ex) = store_ex"
  by code_simp

text \<open>
  Claim C9, amended. A PUT whose body has a truthy url and a rating that \<^verbatim>\<open>ToNumber\<close>
  takes to \<open>NaN\<close> (a missing rating, a text that is no numeric literal, a plain
  object) passes the range check and is not answered with 400; the handler goes on
  into \<open>updateActivityField\<close>, and when the url is found in row \<open>r\<close> the rating cell of
  that row holds the formatted value afterwards. For a missing rating that is the empty
  cell, and the row no longer decodes to a record with a \<open>userRating\<close>.
\<close>

theorem nan_rating_passes_validation:
  assumes "httpMethod ev = ''PUT''" and "jp (to_string (body ev)) = Some (JObj kvs)"
    and "truthy (get_prop kvs ''url'')" and "to_number (get_prop kvs ''rating'') = NaN"
  shows "\<not> rating_rejected (get_prop kvs ''rating'')
       \<and> statusCode (fst (handler jp ev st)) \<noteq> 400
       \<and> snd (handler jp ev st)
           = snd (updateActivityField jp (get_prop kvs ''url'') ''userRating'' (get_prop kvs ''rating'') st)
       \<and> (\<forall>r. fst (findActivityRowIndex (get_prop kvs ''url'') st) = Some r \<longrightarrow>
             grid (snd (handler jp ev st))
               = write_run (r - 1) 9 [format_cell (get_prop kvs ''rating'')] (grid st)
             \<and> idx (grid (snd (handler jp ev st)) ! (r - 1)) 9 = format_cell (get_prop kvs ''rating'')
             \<and> (get_prop kvs ''rating'' = JUndefined \<longrightarrow>
                  (\<forall>a. rowToActivity jp (grid (snd (handler jp ev st)) ! (r - 1)) = Inr (Some a)
                        \<longrightarrow> map_of a ''userRating'' = None)))"
proof -
  let ?url = "get_prop kvs ''url''" and ?rating = "get_prop kvs ''rating''"
  from assms(4) have n: "\<not> rating_rejected ?rating"
    by (simp add: rating_rejected_def nan_not_less)
  note v = handler_validated[where jp=jp and ev=ev and kvs=kvs and st=st, OF assms(1,2,3) n]
  from v(2) have s: "statusCode (fst (handler jp ev st)) \<noteq> 400"
    by (simp split: sum.splits if_splits)
  have w: "grid (snd (handler jp ev st)) = write_run (r - 1) 9 [format_cell ?rating] (grid st)
         \<and> idx (grid (snd (handler jp ev st)) ! (r - 1)) 9 = format_cell ?rating
         \<and> (?rating = JUndefined \<longrightarrow>
              (\<forall>a. rowToActivity jp (grid (snd (handler jp ev st)) ! (r - 1)) = Inr (Some a)
                    \<longrightarrow> map_of a ''userRating'' = None))"
    if f: "fst (findActivityRowIndex ?url st) = Some r" for r
  proof -
    have c: "map_of COLUMNS ''userRating'' = Some 9"
      by (simp add: COLUMNS_def)
    from updateActivityField_found[OF found_row_bounds(1)[OF f] c, of jp ?rating] v(1)
    have g: "grid (snd (handler jp ev st)) = write_run (r - 1) 9 [format_cell ?rating] (grid st)"
      by (simp add: after_write_def)
    have t: "idx (grid (snd (handler jp ev st)) ! (r - 1)) 9 = format_cell ?rating"
      unfolding g using found_row_bounds(3)[OF f] by (rule write_run_target)
    have "map_of a ''userRating'' = None"
      if "?rating = JUndefined"
        and "rowToActivity jp (grid (snd (handler jp ev st)) ! (r - 1)) = Inr (Some a)" for a
      using rowToActivity_userRating[OF that(2)] t that(1)
      by (simp add: format_cell_def truthy_def)
    with g t show ?thesis by blast
  qed
  from n s v(1) w show ?thesis by blast
qed

theorem nan_rating_passes_validation_witness:
  "to_number (get_prop [(''url'', JStr ''https://c'')] ''rating'') = NaN
   \<and> statusCode (fst (handler (parse_as (JObj [(''url'', JStr ''https://c'')])) put_event store_ex)) = 200
   \<and> fst (findActivityRowIndex (JStr ''https://c'') store_ex) = Some 5
   \<and> idx (grid store_ex ! 4) 9 = JStr ''9''
   \<and> idx (grid (snd (handler (parse_as (JObj [(''url'', JStr ''https://c'')])) put_event store_ex)) ! 4) 9
       = JStr []"
proof -
  have m: "httpMethod put_event = ''PUT''"
    by (simp add: put_event_def)
  have p: "parse_as (JObj [(''url'', JStr ''https://c'')]) (to_string (body put_event))
             = Some (JObj [(''url'', JStr ''https://c'')])"
    by (simp add: parse_as_def)
  have u: "truthy (get_prop [(''url'', JStr ''https://c'')] ''url'')"
    by (simp add: get_prop_def truthy_def)
  have n: "to_number (get_prop [(''url'', JStr ''https://c'')] ''rating'') = NaN"
    by (simp add: get_prop_def to_number_def)
  have f: "fst (findActivityRowIndex (get_prop [(''url'', JStr ''https://c'')] ''url'') store_ex) = Some 5"
    by code_simp
  have s: "statusCode (fst (handler (parse_as (JObj [(''url'', JStr ''https://c'')])) put_event store_ex)) = 200"
    by code_simp
  have o: "idx (grid store_ex ! 4) 9 = JStr ''9''"
    by code_simp
  have e: "format_cell (get_prop [(''url'', JStr ''https://c'')] ''rating'') = JStr []"
    by (simp add: get_prop_def format_cell_def)
  have g: "get_prop [(''url'', JStr ''https://c'')] ''url'' = JStr ''https://c''"
    by (simp add: get_prop_def)
  from nan_rating_passes_validation[where jp="parse_as (JObj [(''url'', JStr ''https://c'')])"
         and ev=put_event and st=store_ex, OF m p u n] f
  have "idx (grid (snd (handler (parse_as (JObj [(''url'', JStr ''https://c'')])) put_event store_ex)) ! (5 - 1)) 9
          = format_cell (get_prop [(''url'', JStr ''https://c'')] ''rating'')"
    by blast
  with n s f o e g show ?thesis by simp
qed


lemma find_map_filter_first:
  assumes "k < length ds" and "f (ds ! k) = Some a" and "P a"
    and "\<forall>j < k. \<forall>b. f (ds ! j) = Some b \<longrightarrow> \<not> P b"
  shows "find P (List.map_filter f ds) = Some a"
  using assms
proof (induction ds arbitrary: k)
  case Nil
  then show ?case by simp
next
  case (Cons d ds)
  show ?case
  proof (cases k)
    case 0
    with Cons.prems show ?thesis
      by (simp add: List.map_filter_simps)
  next
    case (Suc k')
    with Cons.prems have "k' < length ds" "f (ds ! k') = Some a"
      and "\<forall>j < k'. \<forall>b. f (ds ! j) = Some b \<longrightarrow> \<not> P b"
      by auto
    from Cons.IH[OF this(1,2) Cons.prems(3) this(3)]
    have "find P (List.map_filter f ds) = Some a" .
    moreover from Cons.prems(4) Suc have "\<forall>b. f d = Some b \<longrightarrow> \<not> P b"
      by auto
    ultimately show ?thesis
      by (auto simp: List.map_filter_simps split: option.splits)
  qed
qed

lemma map_eq_nth: "map f xs = map g ys \<Longrightarrow> j < length ys \<Longrightarrow> f (xs ! j) = g (ys ! j)"
  by (metis length_map nth_map)

lemma COLUMNS_url_only: "map_of COLUMNS field = Some c \<Longrightarrow> field \<noteq> ''url'' \<Longrightarrow> c \<noteq> 0"
  by (auto simp: COLUMNS_def split: if_splits)

lemma find_mem: "find P xs = Some a \<Longrightarrow> a \<in> set xs"
  by (induction xs) (auto split: if_splits)

section \<open>What a field update returns\<close>

text \<open>
  Claim C4 says that the caller of \<open>updateActivityField\<close> always gets the record now
  stored for the url. Setting \<open>userRemoved\<close> (what \<open>markActivityRemoved\<close> does) stores
  the tombstone, and the re-read filters it out: the call returns undefined while the
  row decodes to the removed record.
\<close>

theorem updateField_returns_persisted_counterexample:
  "fst (updateActivityField no_json (JStr ''https://a'') ''userRemoved'' (JBool True) store_ex) = Inr None
   \<and> rowToActivity no_json
        (grid (snd (updateActivityField no_json (JStr ''https://a'') ''userRemoved'' (JBool True) store_ex)) ! 1)
       = Inr (Some (zoo_ex @ [(''userRemoved'', JBool True)]))"
  by code_simp

text \<open>
  Claim C4, amended. When the url is found in row \<open>r\<close> and the field is a known column
  other than \<open>url\<close>, a call that returns has issued exactly one write, of the formatted
  value into that column of row \<open>r\<close>: every other cell reads as before, or was missing
  and is now the empty string. The value returned is the re-read: the decoding of row
  \<open>r\<close> as now stored when that record is not removed, and never a removed record.
\<close>

theorem updateField_writes_cell_and_rereads:
  assumes "fst (findActivityRowIndex url st) = Some r"
    and "map_of COLUMNS field = Some c" and "field \<noteq> ''url''"
    and "updateActivityField jp url field v st = (Inr res, st')"
  shows "grid st' = write_run (r - 1) c [format_cell v] (grid st)
       \<and> idx (grid st' ! (r - 1)) c = format_cell v
       \<and> (\<forall>j c'. (j, c') \<noteq> (r - 1, c) \<longrightarrow>
             idx (grid st' ! j) c' = idx (grid st ! j) c'
             \<or> (idx (grid st ! j) c' = JUndefined \<and> idx (grid st' ! j) c' = JStr []))
       \<and> filter is_write (calls st')
           = filter is_write (calls st) @ [ValuesUpdate (CellAt (columnLetter c) r) [[format_cell v]]]
       \<and> (\<forall>a. rowToActivity jp (grid st' ! (r - 1)) = Inr (Some a) \<longrightarrow>
             (\<not> truthy (get_prop a ''userRemoved'') \<longrightarrow> res = Some a)
             \<and> (truthy (get_prop a ''userRemoved'') \<longrightarrow> res \<noteq> Some a))"
proof -
  let ?g = "grid st" and ?g' = "write_run (r - 1) c [format_cell v] (grid st)"
  let ?aw = "after_write r c v st"
  let ?P = "\<lambda>a. strict_eq (get_prop a ''url'') url"
  note fb = found_row_bounds[OF assms(1)]
  from updateActivityField_found[OF fb(1) assms(2), of jp v] assms(4)
  obtain as where all: "fst (getAllActivities jp ?aw) = Inr as" and res: "res = find ?P as"
    and st': "st' = ?aw\<lparr>calls := calls ?aw @ [ValuesGet A2_O]\<rparr>"
    by (auto split: sum.splits)
  from st' have g: "grid st' = ?g'"
    by (simp add: after_write_def)
  have t: "idx (?g' ! (r - 1)) c = format_cell v"
    using fb(3) by (rule write_run_target)
  have others: "idx (?g' ! j) c' = idx (?g ! j) c'
             \<or> (idx (?g ! j) c' = JUndefined \<and> idx (?g' ! j) c' = JStr [])"
    if "(j, c') \<noteq> (r - 1, c)" for j c'
  proof (cases "j = r - 1")
    case False
    then show ?thesis
      using write_run_other_row[OF fb(3), of j c "format_cell v"] by simp
  next
    case True
    with that have "c' \<noteq> c" by simp
    from write_run_other_cell[OF fb(3) this, of "format_cell v"] True show ?thesis
      by (auto simp: idx_def)
  qed
  from st' have w: "filter is_write (calls st')
           = filter is_write (calls st) @ [ValuesUpdate (CellAt (columnLetter c) r) [[format_cell v]]]"
    by (simp add: after_write_def is_write_def)
  obtain st'' where "getAllActivities jp ?aw = (Inr as, st'')"
    using all by (cases "getAllActivities jp ?aw") simp
  then obtain ds where ds: "map (rowToActivity jp) (drop 1 ?g') = map Inr ds"
    and as: "as = List.map_filter live ds"
    by (auto simp: getAllActivities_Inr after_write_def)
  from ds have len: "length ds = length (drop 1 ?g')"
    by (metis length_map)
  have lg: "length ?g' = length ?g"
    using fb(3) by (rule write_run_length)
  have dec: "rowToActivity jp (?g' ! Suc j) = Inr (ds ! j)" if "j < length ds" for j
  proof -
    from map_eq_nth[OF ds that] have "rowToActivity jp (drop 1 ?g' ! j) = Inr (ds ! j)" .
    moreover from that len have "drop 1 ?g' ! j = ?g' ! Suc j"
      by (simp add: nth_drop)
    ultimately show ?thesis by simp
  qed
  from fb(2) have r2: "Suc (r - 2) = r - 1" by simp
  from fb(2,3) len lg have k: "r - 2 < length ds" by simp
  have last: "(\<not> truthy (get_prop a ''userRemoved'') \<longrightarrow> res = Some a)
            \<and> (truthy (get_prop a ''userRemoved'') \<longrightarrow> res \<noteq> Some a)"
    if a: "rowToActivity jp (?g' ! (r - 1)) = Inr (Some a)" for a
  proof (intro conjI impI)
    assume "truthy (get_prop a ''userRemoved'')"
    moreover have "\<not> truthy (get_prop b ''userRemoved'')" if "res = Some b" for b
      using find_mem[of ?P as b] that res as by (auto simp: map_filter_mem live_Some)
    ultimately show "res \<noteq> Some a" by blast
  next
    assume nr: "\<not> truthy (get_prop a ''userRemoved'')"
    from dec[OF k] a r2 have dk: "ds ! (r - 2) = Some a" by simp
    with nr have lk: "live (ds ! (r - 2)) = Some a"
      by (simp add: live_Some)
    from rowToActivity_SomeD(1)[OF a] have tr: "truthy (idx (?g' ! (r - 1)) 0)" .
    from COLUMNS_url_only[OF assms(2,3)] have c0: "0 \<noteq> c" by simp
    from write_run_other_cell[OF fb(3) c0, of "format_cell v"] tr
    have "idx (?g' ! (r - 1)) 0 = idx (?g ! (r - 1)) 0"
      by (auto simp: idx_def truthy_def split: if_splits)
    with rowToActivity_url[OF a] fb(4) have pa: "?P a"
      by (simp add: get_prop_def)
    have before: "\<forall>j < r - 2. \<forall>b. live (ds ! j) = Some b \<longrightarrow> \<not> ?P b"
    proof (intro allI impI)
      fix j b assume j: "j < r - 2" and b: "live (ds ! j) = Some b"
      from j k have "j < length ds" by simp
      from dec[OF this] b have "rowToActivity jp (?g' ! Suc j) = Inr (Some b)"
        by (simp add: live_Some)
      moreover from j have ne: "Suc j \<noteq> r - 1" by simp
      ultimately have "rowToActivity jp (?g ! Suc j) = Inr (Some b)"
        using write_run_other_row[OF fb(3) ne, of c "format_cell v"] by simp
      from rowToActivity_url[OF this] have "get_prop b ''url'' = idx (?g ! Suc j) 0"
        by (simp add: get_prop_def)
      moreover from j fb(5) have "\<not> strict_eq (idx (?g ! Suc j) 0) url"
        by simp
      ultimately show "\<not> ?P b" by simp
    qed
    from find_map_filter_first[of "r - 2" ds live a ?P, OF k lk pa before] res as
    show "res = Some a" by simp
  qed
  from g t others w last show ?thesis
    by (simp only: g) blast
qed


theorem updateField_writes_cell_and_rereads_witness:
  "fst (findActivityRowIndex (JStr ''https://a'') store_ex) = Some 2
   \<and> fst (updateActivityField no_json (JStr ''https://a'') ''userRating'' (JNum (Dec 4 0)) store_ex)
       = Inr (Some (zoo_ex @ [(''userRating'', JNum (Dec 4 0))]))
   \<and> idx (grid (snd (updateActivityField no_json (JStr ''https://a'') ''userRating'' (JNum (Dec 4 0)) store_ex)) ! 1) 9
       = JStr ''4''
   \<and> rowToActivity no_json
        (grid (snd (updateActivityField no_json (JStr ''https://a'') ''userRating'' (JNum (Dec 4 0)) store_ex)) ! 1)
       = Inr (Some (zoo_ex @ [(''userRating'', JNum (Dec 4 0))]))"
proof -
  let ?out = "updateActivityField no_json (JStr ''https://a'') ''userRating'' (JNum (Dec 4 0)) store_ex"
  have f: "fst (findActivityRowIndex (JStr ''https://a'') store_ex) = Some 2"
    by code_simp
  have c: "map_of COLUMNS ''userRating'' = Some 9"
    by (simp add: COLUMNS_def)
  have n: "''userRating'' \<noteq> ''url''"
    by simp
  have r: "fst ?out = Inr (Some (zoo_ex @ [(''userRating'', JNum (Dec 4 0))]))"
    by code_simp
  then have h: "?out = (Inr (Some (zoo_ex @ [(''userRating'', JNum (Dec 4 0))])), snd ?out)"
    by (metis prod.collapse)
  have d: "rowToActivity no_json (grid (snd ?out) ! 1)
             = Inr (Some (zoo_ex @ [(''userRating'', JNum (Dec 4 0))]))"
    by code_simp
  have e: "format_cell (JNum (Dec 4 0)) = JStr ''4''"
    by code_simp
  from updateField_writes_cell_and_rereads[OF f c n h]
  have "idx (grid (snd ?out) ! (2 - 1)) 9 = format_cell (JNum (Dec 4 0))"
    by blast
  with f r d e show ?thesis by simp
qed

lemma spread_into_map_of:
  "distinct (map fst src) \<Longrightarrow> map_of (spread_into obj src) = map_of obj ++ map_of src"
proof (induction src arbitrary: obj)
  case Nil
  then show ?case by (simp add: spread_into_def)
next
  case (Cons p src)
  obtain k v where p: "p = (k, v)" by (cases p)
  from Cons.prems p have d: "distinct (map fst src)" and n: "k \<notin> fst ` set src"
    by auto
  have "spread_into obj (p # src) = spread_into (AList.update k v obj) src"
    by (simp add: spread_into_def p)
  also have "map_of \<dots> = map_of (AList.update k v obj) ++ map_of src"
    by (rule Cons.IH[OF d])
  also have "\<dots> = map_of obj ++ map_of (p # src)"
  proof
    fix x
    from n have "map_of src k = None"
      by (simp add: map_of_eq_None_iff)
    then show "(map_of (AList.update k v obj) ++ map_of src) x = (map_of obj ++ map_of (p # src)) x"
      by (auto simp: p update_conv' map_add_def split: option.splits)
  qed
  finally show ?case .
qed

lemma spread_into_empty_map_of:
  "distinct (map fst src) \<Longrightarrow> map_of (spread_into [] src) = map_of src"
  by (simp add: spread_into_map_of)

lemma distinct_set_prop: "distinct (map fst a) \<Longrightarrow> distinct (map fst (set_prop k v a))"
  by (simp add: set_prop_def distinct_update)

lemma distinct_opt_field: "distinct (map fst a) \<Longrightarrow> distinct (map fst (opt_field k c f a))"
  by (simp add: opt_field_def distinct_set_prop)

lemma decode_head_distinct: "distinct (map fst (decode_head row))"
  by (simp add: decode_head_def distinct_opt_field)

lemma decode_tail_distinct: "distinct (map fst b) \<Longrightarrow> distinct (map fst (decode_tail row b))"
  by (simp add: decode_tail_def Let_def distinct_opt_field distinct_set_prop)

lemma rowToActivity_distinct:
  assumes "rowToActivity jp row = Inr (Some a)"
  shows "distinct (map fst a)"
proof (cases "truthy (idx row 7)")
  case False
  with assms have "a = decode_tail row (decode_head row)"
    by (simp add: rowToActivity_eq split: if_splits)
  then show ?thesis
    by (simp add: decode_tail_distinct decode_head_distinct)
next
  case True
  with assms obtain v where "a = decode_tail row (set_prop ''services'' v (decode_head row))"
    by (cases "parse_services jp (idx row 7)") (auto simp: rowToActivity_eq split: if_splits)
  then show ?thesis
    by (simp add: decode_tail_distinct decode_head_distinct distinct_set_prop)
qed

lemma write_row_inside:
  assumes "r < length g" and "length vs = 15"
  shows "write_run r 0 vs g = g[r := vs @ drop 15 (g ! r)]"
  using assms by (simp add: write_run_def Let_def)

section \<open>Updating a whole record\<close>

text \<open>
  Claim C5. When the url is found in row \<open>r\<close> and that row decodes, \<open>updateActivity\<close>
  returns the shallow merge of the update object over the decoded record: a key of the
  update wins, also when its value is undefined. It writes the encoding of the merged
  record over columns A to O of row \<open>r\<close>, in one write.
\<close>

theorem updateWhole_merges_and_writes_row:
  assumes "fst (findActivityRowIndex url st) = Some r"
    and "rowToActivity jp (grid st ! (r - 1)) = Inr cur"
    and "distinct (map fst updates)"
  shows "\<exists>merged st'. updateActivity jp url updates st = (Inr merged, st')
       \<and> map_of merged = map_of (current_of cur) ++ map_of updates
       \<and> (\<forall>k. get_prop merged k
                = (case map_of updates k of Some v \<Rightarrow> v | None \<Rightarrow> get_prop (current_of cur) k))
       \<and> grid st' = (grid st)[r - 1 := activityToRow merged @ drop 15 (grid st ! (r - 1))]
       \<and> filter is_write (calls st')
           = filter is_write (calls st) @ [ValuesUpdate (RowA_O r) [activityToRow merged]]"
proof -
  note fb = found_row_bounds[OF assms(1)]
  let ?merged = "spread_into (spread_into [] (current_of cur)) updates"
  let ?st' = "st\<lparr>grid := (grid st)[r - 1 := activityToRow ?merged @ drop 15 (grid st ! (r - 1))],
              calls := calls st @ [ValuesGet A_A, ValuesGet (RowA_O r),
                                  ValuesUpdate (RowA_O r) [activityToRow ?merged]]\<rparr>"
  from fb(2) have r0: "r \<noteq> 0" by simp
  from fb(3) have "drop (r - 1) (grid st) = grid st ! (r - 1) # drop (Suc (r - 1)) (grid st)"
    by (simp add: Cons_nth_drop_Suc)
  with r0 have rv: "range_values (RowA_O r) (grid st) = [take 15 (grid st ! (r - 1))]"
    by (simp add: range_values_def)
  have len: "length (activityToRow ?merged) = 15"
    by (simp add: activityToRow_cells)
  have wr: "write_run (r - 1) 0 (activityToRow ?merged) (grid st)
              = (grid st)[r - 1 := activityToRow ?merged @ drop 15 (grid st ! (r - 1))]"
    by (rule write_row_inside[OF fb(3) len])
  have "updateActivity jp url updates st =
          (Inr ?merged,
           st\<lparr>grid := write_run (r - 1) 0 (activityToRow ?merged) (grid st),
              calls := calls st @ [ValuesGet A_A, ValuesGet (RowA_O r),
                                  ValuesUpdate (RowA_O r) [activityToRow ?merged]]\<rparr>)"
    using fb(1) r0 assms(2)
    by (simp add: updateActivity_def findActivityRowIndex_eq values_get_def rv
        rowToActivity_take values_update_def range_origin_def current_of_def Let_def)
  then have u: "updateActivity jp url updates st = (Inr ?merged, ?st')"
    by (simp only: wr)
  have dc: "distinct (map fst (current_of cur))"
    using assms(2) by (auto simp: current_of_def dest: rowToActivity_distinct split: option.splits)
  have m: "map_of ?merged = map_of (current_of cur) ++ map_of updates"
    by (simp add: spread_into_map_of[OF assms(3)] spread_into_empty_map_of[OF dc])
  then have gp: "get_prop ?merged k
                = (case map_of updates k of Some v \<Rightarrow> v | None \<Rightarrow> get_prop (current_of cur) k)" for k
    by (simp add: get_prop_def map_add_def split: option.splits)
  have w: "filter is_write (calls ?st')
           = filter is_write (calls st) @ [ValuesUpdate (RowA_O r) [activityToRow ?merged]]"
    by (simp add: is_write_def)
  from u m gp w show ?thesis
    by (intro exI[of _ ?merged] exI[of _ ?st']) simp
qed

theorem updateWhole_merges_and_writes_row_witness:
  "fst (findActivityRowIndex (JStr ''https://a'') store_ex) = Some 2
   \<and> rowToActivity no_json (grid store_ex ! 1) = Inr (Some zoo_ex)
   \<and> fst (updateActivity no_json (JStr ''https://a'')
             [(''category'', JUndefined), (''userRating'', JNum (Dec 4 0))] store_ex)
       = Inr [(''url'', JStr ''https://a''), (''shortName'', JStr ''Zoo''), (''alive'', JBool True),
              (''lastUpdated'', JStr ''2024-01-01''), (''category'', JUndefined),
              (''userRating'', JNum (Dec 4 0))]
   \<and> grid (snd (updateActivity no_json (JStr ''https://a'')
             [(''category'', JUndefined), (''userRating'', JNum (Dec 4 0))] store_ex)) ! 1
       = map JStr [''https://a'', ''Zoo'', ''true'', ''2024-01-01'', [], [], [], [], [], ''4'',
                   [], [], [], [], []]"
proof -
  let ?u = "[(''category'', JUndefined), (''userRating'', JNum (Dec 4 0))]"
  have f: "fst (findActivityRowIndex (JStr ''https://a'') store_ex) = Some 2"
    by code_simp
  have c: "rowToActivity no_json (grid store_ex ! (2 - 1)) = Inr (Some zoo_ex)"
    by code_simp
  have d: "distinct (map fst ?u)"
    by simp
  from updateWhole_merges_and_writes_row[OF f c d]
  obtain merged st' where u: "updateActivity no_json (JStr ''https://a'') ?u store_ex = (Inr merged, st')"
    and m: "map_of merged = map_of (current_of (Some zoo_ex)) ++ map_of ?u"
    by blast
  have e: "fst (updateActivity no_json (JStr ''https://a'') ?u store_ex)
       = Inr [(''url'', JStr ''https://a''), (''shortName'', JStr ''Zoo''), (''alive'', JBool True),
              (''lastUpdated'', JStr ''2024-01-01''), (''category'', JUndefined),
              (''userRating'', JNum (Dec 4 0))]"
    by code_simp
  have g: "grid (snd (updateActivity no_json (JStr ''https://a'') ?u store_ex)) ! 1
       = map JStr [''https://a'', ''Zoo'', ''true'', ''2024-01-01'', [], [], [], [], [], ''4'',
                   [], [], [], [], []]"
    by code_simp
  from f c e g u show ?thesis by simp
qed

section \<open>Numbers and their text\<close>

declare show_nat.simps [simp del]
declare norm_dec.simps [simp del]

lemma digit_char_digit: "d < 10 \<Longrightarrow> is_digit (digit_char d) \<and> digit_val (digit_char d) = d"
proof -
  assume "d < 10"
  then have "d \<in> {0, 1, 2, 3, 4, 5, 6, 7, 8, 9}" by auto
  then show ?thesis
    by (auto simp: digit_char_def is_digit_def digit_val_def)
qed

lemma show_nat_digits: "c \<in> set (show_nat n) \<Longrightarrow> is_digit c"
proof (induction n arbitrary: c rule: show_nat.induct)
  case (1 n)
  show ?case
  proof (cases "n < 10")
    case True
    with "1.prems" show ?thesis
      using digit_char_digit[of n] by (subst (asm) show_nat.simps) simp
  next
    case False
    with "1.prems" have "c \<in> set (show_nat (n div 10)) \<or> c = digit_char (n mod 10)"
      by (subst (asm) show_nat.simps) auto
    then show ?thesis
      using "1.IH"[OF False] digit_char_digit[of "n mod 10"] by auto
  qed
qed

lemma show_nat_nonempty: "show_nat n \<noteq> []"
  by (subst show_nat.simps) simp

lemma nat_of_digits_snoc: "nat_of_digits (ds @ [c]) = 10 * nat_of_digits ds + digit_val c"
  by (simp add: nat_of_digits_def)

lemma nat_of_digits_append:
  "nat_of_digits (xs @ ys) = nat_of_digits xs * 10 ^ length ys + nat_of_digits ys"
proof (induction ys rule: rev_induct)
  case Nil
  then show ?case by (simp add: nat_of_digits_def)
next
  case (snoc y ys)
  have "nat_of_digits (xs @ ys @ [y]) = 10 * nat_of_digits (xs @ ys) + digit_val y"
    using nat_of_digits_snoc[of "xs @ ys" y] by simp
  also have "\<dots> = nat_of_digits xs * 10 ^ length (ys @ [y]) + nat_of_digits (ys @ [y])"
    by (simp add: snoc.IH nat_of_digits_snoc algebra_simps)
  finally show ?case .
qed

lemma nat_of_digits_show_nat: "nat_of_digits (show_nat n) = n"
proof (induction n rule: show_nat.induct)
  case (1 n)
  show ?case
  proof (cases "n < 10")
    case True
    then have "show_nat n = [digit_char n]"
      by (subst show_nat.simps) simp
    with True show ?thesis
      using digit_char_digit[of n] by (simp add: nat_of_digits_def)
  next
    case False
    then have "show_nat n = show_nat (n div 10) @ [digit_char (n mod 10)]"
      by (subst show_nat.simps) simp
    then show ?thesis
      using "1.IH"[OF False] digit_char_digit[of "n mod 10"]
      by (simp add: nat_of_digits_snoc)
  qed
qed

lemma nat_of_digits_zeros: "nat_of_digits (replicate z CHR ''0'') = 0"
proof (induction z)
  case 0
  then show ?case by (simp add: nat_of_digits_def)
next
  case (Suc z)
  have "replicate (Suc z) CHR ''0'' = replicate z CHR ''0'' @ [CHR ''0'']"
    by (simp add: replicate_append_same)
  then show ?case
    by (simp only: nat_of_digits_snoc Suc.IH) (simp add: digit_val_def)
qed

lemma zero_is_digit: "is_digit CHR ''0''"
  by (simp add: is_digit_def)

lemma not_digit:
  "\<not> is_digit CHR ''.''" "\<not> is_digit CHR ''e''" "\<not> is_digit CHR ''-''" "\<not> is_digit CHR ''+''"
  "\<not> is_digit CHR ''N''" "\<not> is_digit CHR ''I''"
  by (simp_all add: is_digit_def)

lemma digit_not_ws: "is_digit c \<Longrightarrow> \<not> is_ws c"
  by (auto simp: is_digit_def is_ws_def)

lemma digit_not_sign: "is_digit c \<Longrightarrow> c \<noteq> CHR ''-'' \<and> c \<noteq> CHR ''+'' \<and> c \<noteq> CHR ''.''"
  by (auto simp: is_digit_def)

lemma norm_dec_zeros: "m mod 10 \<noteq> 0 \<Longrightarrow> norm_dec (m * 10 ^ z) e = Dec m (e + int z)"
proof (induction z arbitrary: e)
  case 0
  then have "m \<noteq> 0" by auto
  with 0 show ?case by (subst norm_dec.simps) simp
next
  case (Suc z)
  then have "m \<noteq> 0" by auto
  then have "m * 10 ^ Suc z \<noteq> 0" "(m * 10 ^ Suc z) mod 10 = 0" "(m * 10 ^ Suc z) div 10 = m * 10 ^ z"
    by simp_all
  then have "norm_dec (m * 10 ^ Suc z) e = norm_dec (m * 10 ^ z) (e + 1)"
    by (subst norm_dec.simps) simp
  with Suc.IH[OF Suc.prems] show ?case by simp
qed

lemma norm_dec_canonical: "m mod 10 \<noteq> 0 \<Longrightarrow> norm_dec m e = Dec m e"
  using norm_dec_zeros[of m 0 e] by simp

lemma show_nat_length_bound: "n < 10 ^ length (show_nat n)"
proof (induction n rule: show_nat.induct)
  case (1 n)
  show ?case
  proof (cases "n < 10")
    case True
    then show ?thesis by (subst show_nat.simps) simp
  next
    case False
    then have s: "show_nat n = show_nat (n div 10) @ [digit_char (n mod 10)]"
      by (subst show_nat.simps) simp
    from "1.IH"[OF False] have "n div 10 < 10 ^ length (show_nat (n div 10))" .
    then have "n < 10 * 10 ^ length (show_nat (n div 10))"
      by (simp add: div_less_iff_less_mult)
    then show ?thesis by (simp add: s)
  qed
qed

lemma show_nat_length_lower: "0 < n \<Longrightarrow> 10 ^ (length (show_nat n) - 1) \<le> n"
proof (induction n rule: show_nat.induct)
  case (1 n)
  show ?case
  proof (cases "n < 10")
    case True
    with "1.prems" show ?thesis by (subst show_nat.simps) simp
  next
    case False
    then have s: "show_nat n = show_nat (n div 10) @ [digit_char (n mod 10)]"
      by (subst show_nat.simps) simp
    from False have "0 < n div 10" by simp
    from "1.IH"[OF False this] have "10 ^ (length (show_nat (n div 10)) - 1) \<le> n div 10" .
    then have "10 * 10 ^ (length (show_nat (n div 10)) - 1) \<le> n"
      by simp
    moreover obtain l where "length (show_nat (n div 10)) = Suc l"
      using show_nat_nonempty[of "n div 10"] by (cases "show_nat (n div 10)") auto
    ultimately show ?thesis
      by (simp add: s)
  qed
qed


lemma while_digits:
  assumes "\<forall>c \<in> set ds. is_digit c" and "rest = [] \<or> \<not> is_digit (hd rest)"
  shows "takeWhile is_digit (ds @ rest) = ds" and "dropWhile is_digit (ds @ rest) = rest"
proof -
  from assms(2) have t: "takeWhile is_digit rest = []" and d: "dropWhile is_digit rest = rest"
    by (cases rest; auto)+
  from assms(1) show "takeWhile is_digit (ds @ rest) = ds"
    by (simp add: takeWhile_append2 t)
  from assms(1) show "dropWhile is_digit (ds @ rest) = rest"
    by (simp add: dropWhile_append2 d)
qed

lemma strip_sign_plain: "s \<noteq> [] \<Longrightarrow> is_digit (hd s) \<Longrightarrow> strip_sign s = (False, s)"
  by (cases s) (auto simp: strip_sign_def dest: digit_not_sign)

lemma trim_start_plain: "s \<noteq> [] \<Longrightarrow> \<not> is_ws (hd s) \<Longrightarrow> trim_start s = s"
  by (cases s) (auto simp: trim_start_def)

lemma minus_not_ws: "\<not> is_ws CHR ''-''"
  by (simp add: is_ws_def)

text \<open>The integers that print as plain digits.\<close>

lemma show_dec_integer:
  assumes "0 < n" and "0 \<le> e" and "int n * 10 ^ nat e < 10 ^ 21"
  shows "show_dec n e = show_nat n @ replicate (nat e) CHR ''0''"
proof -
  let ?k = "length (show_nat n)"
  from show_nat_length_lower[OF assms(1)] have "int (10 ^ (?k - 1)) \<le> int n"
    by (simp only: of_nat_le_iff)
  then have "(10::int) ^ (?k - 1) \<le> int n"
    by (simp only: of_nat_power of_nat_numeral)
  then have "(10::int) ^ (?k - 1) * 10 ^ nat e \<le> int n * 10 ^ nat e"
    by (rule mult_right_mono) simp
  then have "(10::int) ^ (?k - 1 + nat e) \<le> int n * 10 ^ nat e"
    by (simp only: power_add)
  from this assms(3) have "(10::int) ^ (?k - 1 + nat e) < 10 ^ 21"
    by (rule le_less_trans)
  then have "?k - 1 + nat e < 21"
    by (rule power_less_imp_less_exp[rotated]) simp
  with assms(2) have "int ?k \<le> e + int ?k \<and> e + int ?k \<le> 21"
    by auto
  then show ?thesis
    by (simp add: show_dec_def Let_def)
qed

lemma parse_int10_digits:
  assumes "\<forall>c \<in> set ds. is_digit c" and "ds \<noteq> []"
  shows "parse_int10 ds = int_num (int (nat_of_digits ds))"
    and "parse_int10 (CHR ''-'' # ds) = int_num (- int (nat_of_digits ds))"
proof -
  from assms have h: "is_digit (hd ds)" by (cases ds) auto
  from while_digits(1)[OF assms(1), of "[]"] have t: "takeWhile is_digit ds = ds" by simp
  from assms(2) h show "parse_int10 ds = int_num (int (nat_of_digits ds))"
    by (simp add: parse_int10_def trim_start_plain digit_not_ws strip_sign_plain t)
  have "trim_start (CHR ''-'' # ds) = CHR ''-'' # ds"
    by (simp add: trim_start_plain minus_not_ws)
  moreover have "strip_sign (CHR ''-'' # ds) = (True, ds)"
    by (simp add: strip_sign_def)
  ultimately show "parse_int10 (CHR ''-'' # ds) = int_num (- int (nat_of_digits ds))"
    using assms(2) by (simp add: parse_int10_def t)
qed

lemma parse_int10_round_trip:
  assumes "is_integer_num x"
  shows "parse_int10 (number_to_string x) = x"
proof -
  from assms obtain m e where x: "x = Dec m e"
    and c: "(m = 0 \<and> e = 0) \<or> (m mod 10 \<noteq> 0 \<and> 0 \<le> e \<and> \<bar>m\<bar> * 10 ^ nat e < 10 ^ 21)"
    by (cases x) (auto simp: is_integer_num_def)
  show ?thesis
  proof (cases "m = 0")
    case True
    with c have "e = 0" by auto
    have "parse_int10 ''0'' = int_num (int (nat_of_digits ''0''))"
      by (rule parse_int10_digits(1)) (simp_all add: zero_is_digit)
    also have "\<dots> = Dec 0 0"
      by (subst int_num_def, subst norm_dec.simps) (simp add: nat_of_digits_def digit_val_def)
    finally show ?thesis
      by (simp add: x True \<open>e = 0\<close> number_to_string_def)
  next
    case False
    with c have m10: "m mod 10 \<noteq> 0" and e: "0 \<le> e" and b: "\<bar>m\<bar> * 10 ^ nat e < 10 ^ 21"
      by auto
    let ?n = "nat \<bar>m\<bar>"
    let ?s = "show_nat ?n @ replicate (nat e) CHR ''0''"
    from False have n: "0 < ?n" by simp
    from b have "int ?n * 10 ^ nat e < 10 ^ 21" by simp
    from show_dec_integer[OF n e this] have sd: "show_dec ?n e = ?s" .
    have dg: "\<forall>c \<in> set ?s. is_digit c"
      by (auto simp: show_nat_digits zero_is_digit)
    have ne: "?s \<noteq> []"
      by (simp add: show_nat_nonempty)
    have v: "nat_of_digits ?s = ?n * 10 ^ nat e"
      by (simp add: nat_of_digits_append nat_of_digits_show_nat nat_of_digits_zeros)
    show ?thesis
    proof (cases "m < 0")
      case True
      then have "number_to_string x = CHR ''-'' # ?s"
        using sd False by (simp add: x number_to_string_def) 
      then have "parse_int10 (number_to_string x) = int_num (- int (?n * 10 ^ nat e))"
        using parse_int10_digits(2)[OF dg ne] v by simp
      also from True have "- int (?n * 10 ^ nat e) = m * 10 ^ nat e"
        by simp
      also have "int_num (m * 10 ^ nat e) = Dec m e"
        using norm_dec_zeros[OF m10, of "nat e" 0] e by (simp add: int_num_def)
      finally show ?thesis by (simp add: x)
    next
      case pos: False
      with False have "number_to_string x = ?s"
        using sd by (simp add: x number_to_string_def) 
      then have "parse_int10 (number_to_string x) = int_num (int (?n * 10 ^ nat e))"
        using parse_int10_digits(1)[OF dg ne] v by simp
      also from pos have "int (?n * 10 ^ nat e) = m * 10 ^ nat e"
        by simp
      also have "int_num (m * 10 ^ nat e) = Dec m e"
        using norm_dec_zeros[OF m10, of "nat e" 0] e by (simp add: int_num_def)
      finally show ?thesis by (simp add: x)
    qed
  qed
qed

lemma scan_exponent_empty: "scan_exponent [] = (0, [])"
  by (simp add: scan_exponent_def)

lemma scan_exponent_printed:
  "scan_exponent (CHR ''e'' # CHR ''+'' # show_nat p) = (int p, [])"
  "scan_exponent (CHR ''e'' # CHR ''-'' # show_nat p) = (- int p, [])"
proof -
  have d: "\<forall>c \<in> set (show_nat p). is_digit c"
    by (simp add: show_nat_digits)
  from while_digits[OF d, of "[]"]
  have t: "takeWhile is_digit (show_nat p) = show_nat p" "dropWhile is_digit (show_nat p) = []"
    by simp_all
  show "scan_exponent (CHR ''e'' # CHR ''+'' # show_nat p) = (int p, [])"
    by (simp add: scan_exponent_def strip_sign_def t show_nat_nonempty nat_of_digits_show_nat)
  show "scan_exponent (CHR ''e'' # CHR ''-'' # show_nat p) = (- int p, [])"
    by (simp add: scan_exponent_def strip_sign_def t show_nat_nonempty nat_of_digits_show_nat)
qed

lemma scan_decimal_no_dot:
  assumes "\<forall>c \<in> set ip. is_digit c" and "ip \<noteq> []"
    and "rest = [] \<or> (\<not> is_digit (hd rest) \<and> hd rest \<noteq> CHR ''.'')"
  shows "scan_decimal (ip @ rest) =
           Some (norm_dec (int (nat_of_digits ip)) (fst (scan_exponent rest)), snd (scan_exponent rest))"
proof -
  from assms(3) have r: "rest = [] \<or> \<not> is_digit (hd rest)" by auto
  note w = while_digits[OF assms(1) r]
  from assms(3) have nd: "\<not> (rest \<noteq> [] \<and> hd rest = CHR ''.'')" by auto
  show ?thesis
    using assms(2) nd
    by (auto simp: scan_decimal_def w Let_def split_beta)
qed

lemma scan_decimal_dot:
  assumes "\<forall>c \<in> set ip. is_digit c" and "\<forall>c \<in> set fp. is_digit c" and "ip \<noteq> [] \<or> fp \<noteq> []"
    and "rest = [] \<or> \<not> is_digit (hd rest)"
  shows "scan_decimal (ip @ CHR ''.'' # fp @ rest) =
           Some (norm_dec (int (nat_of_digits (ip @ fp))) (fst (scan_exponent rest) - int (length fp)),
                 snd (scan_exponent rest))"
proof -
  have "CHR ''.'' # fp @ rest = [] \<or> \<not> is_digit (hd (CHR ''.'' # fp @ rest))"
    by (simp add: not_digit)
  note w1 = while_digits[OF assms(1) this]
  note w2 = while_digits[OF assms(2,4)]
  show ?thesis
    using assms(3)
    by (simp add: scan_decimal_def w1 w2 Let_def split_beta)
qed


lemma nat_of_digits_zero_Cons: "nat_of_digits (CHR ''0'' # xs) = nat_of_digits xs"
  using nat_of_digits_append[of "[CHR ''0'']" xs]
  by (simp add: nat_of_digits_def[of "[CHR ''0'']"] digit_val_def)

lemma take_drop_digits:
  "\<forall>c \<in> set (take i (show_nat n)). is_digit c" "\<forall>c \<in> set (drop i (show_nat n)). is_digit c"
  by (auto dest: in_set_takeD in_set_dropD simp: show_nat_digits)

text \<open>What the scanner reads in the text of a positive decimal in normal form.\<close>

lemma scan_decimal_show_dec:
  assumes "0 < n" and "int n mod 10 \<noteq> 0"
  shows "scan_decimal (show_dec n e) = Some (Dec (int n) e, [])"
proof -
  let ?ds = "show_nat n"
  let ?k = "int (length ?ds)"
  let ?p = "e + ?k"
  have dg: "\<forall>c \<in> set ?ds. is_digit c"
    by (simp add: show_nat_digits)
  have ne: "?ds \<noteq> []"
    by (rule show_nat_nonempty)
  have v: "nat_of_digits ?ds = n"
    by (rule nat_of_digits_show_nat)
  note canon = norm_dec_canonical[OF assms(2)]
  consider (a) "?k \<le> ?p" "?p \<le> 21"
    | (b) "\<not> (?k \<le> ?p \<and> ?p \<le> 21)" "0 < ?p" "?p \<le> 21"
    | (c) "\<not> (?k \<le> ?p \<and> ?p \<le> 21)" "\<not> (0 < ?p \<and> ?p \<le> 21)" "- 6 < ?p" "?p \<le> 0"
    | (d) "\<not> (?k \<le> ?p \<and> ?p \<le> 21)" "\<not> (0 < ?p \<and> ?p \<le> 21)" "\<not> (- 6 < ?p \<and> ?p \<le> 0)"
    by linarith
  then show ?thesis
  proof cases
    case a
    then have s: "show_dec n e = (?ds @ replicate (nat e) CHR ''0'') @ []"
      by (simp add: show_dec_def Let_def)
    have "scan_decimal ((?ds @ replicate (nat e) CHR ''0'') @ [])
            = Some (norm_dec (int (nat_of_digits (?ds @ replicate (nat e) CHR ''0'')))
                      (fst (scan_exponent [])), snd (scan_exponent []))"
      by (rule scan_decimal_no_dot) (auto simp: show_nat_digits zero_is_digit ne)
    also have "\<dots> = Some (norm_dec (int n * 10 ^ nat e) 0, [])"
      by (simp add: scan_exponent_empty nat_of_digits_append v nat_of_digits_zeros)
    also have "norm_dec (int n * 10 ^ nat e) 0 = Dec (int n) e"
      using norm_dec_zeros[OF assms(2), of "nat e" 0] a by simp
    finally show ?thesis by (simp only: s)
  next
    case b
    then have lt: "nat ?p < length ?ds" by linarith
    from b have s: "show_dec n e = take (nat ?p) ?ds @ CHR ''.'' # drop (nat ?p) ?ds @ []"
      by (simp add: show_dec_def Let_def)
    have "scan_decimal (take (nat ?p) ?ds @ CHR ''.'' # drop (nat ?p) ?ds @ [])
            = Some (norm_dec (int (nat_of_digits (take (nat ?p) ?ds @ drop (nat ?p) ?ds)))
                      (fst (scan_exponent []) - int (length (drop (nat ?p) ?ds))),
                    snd (scan_exponent []))"
      using b(2) ne by (intro scan_decimal_dot take_drop_digits) auto
    also have "\<dots> = Some (norm_dec (int n) e, [])"
      using lt b(2) by (simp add: scan_exponent_empty v)
    finally show ?thesis by (simp only: s canon)
  next
    case c
    let ?z = "replicate (nat (- ?p)) CHR ''0''"
    from c have s: "show_dec n e = ''0'' @ CHR ''.'' # (?z @ ?ds) @ []"
      by (simp add: show_dec_def Let_def)
    have "scan_decimal (''0'' @ CHR ''.'' # (?z @ ?ds) @ [])
            = Some (norm_dec (int (nat_of_digits (''0'' @ ?z @ ?ds)))
                      (fst (scan_exponent []) - int (length (?z @ ?ds))),
                    snd (scan_exponent []))"
      by (rule scan_decimal_dot) (auto simp: show_nat_digits zero_is_digit)
    also have "nat_of_digits (''0'' @ ?z @ ?ds) = n"
      by (simp add: nat_of_digits_zero_Cons nat_of_digits_append v nat_of_digits_zeros)
    also have "fst (scan_exponent []) - int (length (?z @ ?ds)) = e"
      using c by (simp add: scan_exponent_empty)
    finally show ?thesis by (simp only: s canon scan_exponent_empty snd_conv)
  next
    case d
    let ?x = "?p - 1"
    let ?ex = "CHR ''e'' # (if ?x < 0 then CHR ''-'' else CHR ''+'') # show_nat (nat \<bar>?x\<bar>)"
    have ex: "scan_exponent ?ex = (?x, [])"
      using scan_exponent_printed[of "nat \<bar>?x\<bar>"] by auto
    from ex have f: "fst (scan_exponent ?ex) = ?x" "snd (scan_exponent ?ex) = []"
      by simp_all
    have exhd: "?ex = [] \<or> (\<not> is_digit (hd ?ex) \<and> hd ?ex \<noteq> CHR ''.'')"
      by (simp add: not_digit)
    show ?thesis
    proof (cases "?k = 1")
      case True
      with d have s: "show_dec n e = ?ds @ ?ex"
        unfolding show_dec_def Let_def by (simp only: if_False if_True refl simp_thms; simp)
      have "scan_decimal (?ds @ ?ex)
              = Some (norm_dec (int (nat_of_digits ?ds)) (fst (scan_exponent ?ex)), snd (scan_exponent ?ex))"
        using dg ne exhd by (rule scan_decimal_no_dot)
      also have "\<dots> = Some (norm_dec (int n) ?x, [])"
        by (simp only: f v)
      also have "norm_dec (int n) ?x = Dec (int n) e"
        using True by (simp add: canon)
      finally show ?thesis by (simp only: s)
    next
      case False
      with ne have k2: "1 < length ?ds"
        by (cases ?ds) auto
      from False d have s: "show_dec n e = take 1 ?ds @ CHR ''.'' # drop 1 ?ds @ ?ex"
        unfolding show_dec_def Let_def by (simp only: if_False if_True refl simp_thms; simp)
      have "scan_decimal (take 1 ?ds @ CHR ''.'' # drop 1 ?ds @ ?ex)
            = Some (norm_dec (int (nat_of_digits (take 1 ?ds @ drop 1 ?ds)))
                      (fst (scan_exponent ?ex) - int (length (drop 1 ?ds))),
                    snd (scan_exponent ?ex))"
        using ne exhd by (intro scan_decimal_dot take_drop_digits) auto
      also have "\<dots> = Some (norm_dec (int n) (?x - int (length (drop 1 ?ds))), [])"
        by (simp only: f v append_take_drop_id)
      also have "norm_dec (int n) (?x - int (length (drop 1 ?ds))) = Dec (int n) e"
        using k2 by (simp add: canon)
      finally show ?thesis by (simp only: s)
    qed
  qed
qed

lemma show_dec_hd:
  assumes "0 < n"
  shows "show_dec n e \<noteq> []" and "is_digit (hd (show_dec n e))"
proof -
  let ?ds = "show_nat n"
  have ne: "?ds \<noteq> []" by (rule show_nat_nonempty)
  then have h: "is_digit (hd ?ds)"
    using show_nat_digits[of "hd ?ds" n] by simp
  have t: "0 < i \<Longrightarrow> hd (take i ?ds) = hd ?ds \<and> take i ?ds \<noteq> []" for i
    using ne by (cases ?ds; cases i) auto
  show "show_dec n e \<noteq> []"
    using ne by (auto simp: show_dec_def Let_def)
  show "is_digit (hd (show_dec n e))"
    using ne h t[of "nat (e + int (length ?ds))"] t[of 1]
    by (auto simp: show_dec_def Let_def hd_append zero_is_digit)
qed

lemma not_infinity: "s \<noteq> [] \<Longrightarrow> is_digit (hd s) \<Longrightarrow> take 8 s \<noteq> ''Infinity''"
  by (cases s) (auto simp: not_digit)

lemma parse_float_plain:
  assumes "s \<noteq> []" and "is_digit (hd s)" and "scan_decimal s = Some (x, r)"
  shows "parse_float s = x" and "parse_float (CHR ''-'' # s) = num_neg x"
proof -
  from assms show "parse_float s = x"
    by (simp add: parse_float_def trim_start_plain digit_not_ws strip_sign_plain not_infinity)
  have "trim_start (CHR ''-'' # s) = CHR ''-'' # s"
    by (simp add: trim_start_plain minus_not_ws)
  moreover have "strip_sign (CHR ''-'' # s) = (True, s)"
    by (simp add: strip_sign_def)
  ultimately show "parse_float (CHR ''-'' # s) = num_neg x"
    using assms by (simp add: parse_float_def not_infinity)
qed

lemma parse_float_round_trip:
  assumes "wf_num x"
  shows "parse_float (number_to_string x) = x"
proof (cases x)
  case NaN
  have "parse_float ''NaN'' = NaN" by code_simp
  with NaN show ?thesis by (simp add: number_to_string_def)
next
  case PosInf
  have "parse_float ''Infinity'' = PosInf" by code_simp
  with PosInf show ?thesis by (simp add: number_to_string_def)
next
  case NegInf
  have "parse_float ''-Infinity'' = NegInf" by code_simp
  with NegInf show ?thesis by (simp add: number_to_string_def)
next
  case (Dec m e)
  show ?thesis
  proof (cases "m = 0")
    case True
    with assms Dec have "e = 0" by (simp add: wf_num_def)
    have "parse_float ''0'' = Dec 0 0" by code_simp
    with True \<open>e = 0\<close> Dec show ?thesis by (simp add: number_to_string_def)
  next
    case False
    with assms Dec have m10: "m mod 10 \<noteq> 0" by (simp add: wf_num_def)
    let ?n = "nat \<bar>m\<bar>"
    from False have n: "0 < ?n" by simp
    from m10 have "int ?n mod 10 \<noteq> 0"
      by (cases "m < 0") (auto simp: zmod_zminus1_eq_if)
    from scan_decimal_show_dec[OF n this, of e]
    have sc: "scan_decimal (show_dec ?n e) = Some (Dec (int ?n) e, [])" .
    note pf = parse_float_plain[OF show_dec_hd[OF n, of e] sc]
    show ?thesis
    proof (cases "m < 0")
      case True
      then have "number_to_string x = CHR ''-'' # show_dec ?n e"
        using False by (simp add: Dec number_to_string_def)
      with pf(2) True show ?thesis
        by (simp add: Dec num_neg_def)
    next
      case pos: False
      with False have "number_to_string x = show_dec ?n e"
        by (simp add: Dec number_to_string_def)
      with pf(1) pos show ?thesis
        by (simp add: Dec)
    qed
  qed
qed

lemma rowToActivity_fields:
  assumes "rowToActivity jp row = Inr (Some a)"
  shows "map_of a ''url'' = Some (idx row 0)"
    and "map_of a ''shortName'' = Some (js_or (idx row 1) (JStr []))"
    and "map_of a ''alive'' = Some (JBool (is_true_cell (idx row 2)))"
    and "map_of a ''lastUpdated'' = Some (js_or (idx row 3) (JStr []))"
    and "map_of a ''category'' = (if truthy (idx row 4) then Some (idx row 4) else None)"
    and "map_of a ''openHours'' = (if truthy (idx row 5) then Some (idx row 5) else None)"
    and "map_of a ''address'' = (if truthy (idx row 6) then Some (idx row 6) else None)"
    and "map_of a ''services'' =
           (if truthy (idx row 7)
            then (case parse_services jp (idx row 7) of Inr v \<Rightarrow> Some v | Inl e \<Rightarrow> None)
            else None)"
    and "map_of a ''description'' = (if truthy (idx row 8) then Some (idx row 8) else None)"
    and "map_of a ''userRating'' =
           (if truthy (idx row 9) then Some (JNum (parse_int10 (to_string (idx row 9)))) else None)"
    and "map_of a ''drivingMinutes'' =
           (if truthy (idx row 10) then Some (JNum (parse_int10 (to_string (idx row 10)))) else None)"
    and "map_of a ''transitMinutes'' =
           (if truthy (idx row 11) then Some (JNum (parse_int10 (to_string (idx row 11)))) else None)"
    and "map_of a ''distanceKm'' =
           (if truthy (idx row 12) then Some (JNum (parse_float (to_string (idx row 12)))) else None)"
    and "map_of a ''userComment'' = (if truthy (idx row 13) then Some (idx row 13) else None)"
    and "map_of a ''userRemoved'' = (if is_true_cell (idx row 14) then Some (JBool True) else None)"
proof -
  from rowToActivity_SomeD(1)[OF assms] have t: "truthy (idx row 0)" .
  have "a = decode_tail row
          (if truthy (idx row 7)
           then (case parse_services jp (idx row 7) of
                   Inr v \<Rightarrow> set_prop ''services'' v (decode_head row) | Inl e \<Rightarrow> [])
           else decode_head row)
      \<and> (truthy (idx row 7) \<longrightarrow> (\<exists>v. parse_services jp (idx row 7) = Inr v))"
    using assms t
    by (cases "parse_services jp (idx row 7)") (auto simp: rowToActivity_eq split: if_splits)
  then obtain b where a: "a = decode_tail row b"
    and b: "b = (if truthy (idx row 7)
           then (case parse_services jp (idx row 7) of
                   Inr v \<Rightarrow> set_prop ''services'' v (decode_head row) | Inl e \<Rightarrow> [])
           else decode_head row)"
    and p: "truthy (idx row 7) \<longrightarrow> (\<exists>v. parse_services jp (idx row 7) = Inr v)"
    by blast
  have bm: "map_of b k = (if k = ''services'' \<and> truthy (idx row 7)
                          then (case parse_services jp (idx row 7) of Inr v \<Rightarrow> Some v | Inl e \<Rightarrow> None)
                          else map_of (decode_head row) k)" for k
    using p by (auto simp: b map_of_field split: sum.splits)
  show "map_of a ''url'' = Some (idx row 0)"
    by (simp add: a decode_tail_map_of bm decode_head_map_of js_or_truthy[OF t])
  show "map_of a ''shortName'' = Some (js_or (idx row 1) (JStr []))"
    by (simp add: a decode_tail_map_of bm decode_head_map_of)
  show "map_of a ''alive'' = Some (JBool (is_true_cell (idx row 2)))"
    by (simp add: a decode_tail_map_of bm decode_head_map_of)
  show "map_of a ''lastUpdated'' = Some (js_or (idx row 3) (JStr []))"
    by (simp add: a decode_tail_map_of bm decode_head_map_of)
  show "map_of a ''category'' = (if truthy (idx row 4) then Some (idx row 4) else None)"
    by (simp add: a decode_tail_map_of bm decode_head_map_of)
  show "map_of a ''openHours'' = (if truthy (idx row 5) then Some (idx row 5) else None)"
    by (simp add: a decode_tail_map_of bm decode_head_map_of)
  show "map_of a ''address'' = (if truthy (idx row 6) then Some (idx row 6) else None)"
    by (simp add: a decode_tail_map_of bm decode_head_map_of)
  show "map_of a ''services'' =
           (if truthy (idx row 7)
            then (case parse_services jp (idx row 7) of Inr v \<Rightarrow> Some v | Inl e \<Rightarrow> None)
            else None)"
    by (simp add: a decode_tail_map_of bm decode_head_map_of)
  show "map_of a ''description'' = (if truthy (idx row 8) then Some (idx row 8) else None)"
    by (simp add: a decode_tail_map_of bm decode_head_map_of)
  show "map_of a ''userRating'' =
           (if truthy (idx row 9) then Some (JNum (parse_int10 (to_string (idx row 9)))) else None)"
    by (simp add: a decode_tail_map_of bm decode_head_map_of)
  show "map_of a ''drivingMinutes'' =
           (if truthy (idx row 10) then Some (JNum (parse_int10 (to_string (idx row 10)))) else None)"
    by (simp add: a decode_tail_map_of bm decode_head_map_of)
  show "map_of a ''transitMinutes'' =
           (if truthy (idx row 11) then Some (JNum (parse_int10 (to_string (idx row 11)))) else None)"
    by (simp add: a decode_tail_map_of bm decode_head_map_of)
  show "map_of a ''distanceKm'' =
           (if truthy (idx row 12) then Some (JNum (parse_float (to_string (idx row 12)))) else None)"
    by (simp add: a decode_tail_map_of bm decode_head_map_of)
  show "map_of a ''userComment'' = (if truthy (idx row 13) then Some (idx row 13) else None)"
    by (simp add: a decode_tail_map_of bm decode_head_map_of)
  show "map_of a ''userRemoved'' = (if is_true_cell (idx row 14) then Some (JBool True) else None)"
    by (simp add: a decode_tail_map_of bm decode_head_map_of)
qed

lemma rowToActivity_defined:
  assumes "truthy (idx row 0)"
    and "truthy (idx row 7) \<longrightarrow> (\<exists>v. parse_services jp (idx row 7) = Inr v)"
  shows "\<exists>a. rowToActivity jp row = Inr (Some a)"
  using assms by (auto simp: rowToActivity_eq)

lemma idx_cells:
  "idx [v0, v1, v2, v3, v4, v5, v6, v7, v8, v9, v10, v11, v12, v13, v14] 0 = v0"
  "idx [v0, v1, v2, v3, v4, v5, v6, v7, v8, v9, v10, v11, v12, v13, v14] 1 = v1"
  "idx [v0, v1, v2, v3, v4, v5, v6, v7, v8, v9, v10, v11, v12, v13, v14] 2 = v2"
  "idx [v0, v1, v2, v3, v4, v5, v6, v7, v8, v9, v10, v11, v12, v13, v14] 3 = v3"
  "idx [v0, v1, v2, v3, v4, v5, v6, v7, v8, v9, v10, v11, v12, v13, v14] 4 = v4"
  "idx [v0, v1, v2, v3, v4, v5, v6, v7, v8, v9, v10, v11, v12, v13, v14] 5 = v5"
  "idx [v0, v1, v2, v3, v4, v5, v6, v7, v8, v9, v10, v11, v12, v13, v14] 6 = v6"
  "idx [v0, v1, v2, v3, v4, v5, v6, v7, v8, v9, v10, v11, v12, v13, v14] 7 = v7"
  "idx [v0, v1, v2, v3, v4, v5, v6, v7, v8, v9, v10, v11, v12, v13, v14] 8 = v8"
  "idx [v0, v1, v2, v3, v4, v5, v6, v7, v8, v9, v10, v11, v12, v13, v14] 9 = v9"
  "idx [v0, v1, v2, v3, v4, v5, v6, v7, v8, v9, v10, v11, v12, v13, v14] 10 = v10"
  "idx [v0, v1, v2, v3, v4, v5, v6, v7, v8, v9, v10, v11, v12, v13, v14] 11 = v11"
  "idx [v0, v1, v2, v3, v4, v5, v6, v7, v8, v9, v10, v11, v12, v13, v14] 12 = v12"
  "idx [v0, v1, v2, v3, v4, v5, v6, v7, v8, v9, v10, v11, v12, v13, v14] 13 = v13"
  "idx [v0, v1, v2, v3, v4, v5, v6, v7, v8, v9, v10, v11, v12, v13, v14] 14 = v14"
  by (simp_all add: idx_def)

lemma valid_activity_field:
  "valid_activity a \<Longrightarrow> map_of a k = Some v \<Longrightarrow> valid_field k v"
  by (auto simp: valid_activity_def list_all_iff dest: map_of_SomeD)

lemma valid_field_key: "valid_field k v \<Longrightarrow> k \<in> set HEADER_ROW"
  by (rule ccontr) (simp add: valid_field_def HEADER_ROW_def)

lemma js_or_string: "js_or (JStr s) (JStr []) = JStr s"
  by (simp add: js_or_def truthy_def)

lemma truthy_string: "truthy (JStr s) \<longleftrightarrow> s \<noteq> []"
  by (simp add: truthy_def)

lemma not_true_blank: "\<not> is_true_cell (JStr [])" "is_true_cell (JStr ''true'')" "\<not> is_true_cell (JStr ''false'')"
  by (simp_all add: is_true_cell_def)

lemma parse_services_string:
  "jp s = Some v \<Longrightarrow> parse_services jp (JStr s) = Inr v"
  "\<exists>w. parse_services jp (JStr s) = Inr w"
  by (auto simp: parse_services_def split: option.splits)

section \<open>The round trip\<close>

text \<open>
  Claim C1. For a valid activity \<open>a\<close>, and a \<^verbatim>\<open>JSON.parse\<close> that reads back the text
  \<^verbatim>\<open>JSON.stringify\<close> wrote for its services, decoding the encoding of \<open>a\<close> gives a
  record that has every field of \<open>a\<close> with the value it had, except the fields whose
  cell is the empty string; the optional fields with an empty cell are absent.
\<close>

theorem codec_round_trip:
  assumes "valid_activity a"
    and "\<forall>v. map_of a ''services'' = Some v \<longrightarrow> jp (json_text v) = Some v"
  shows "\<exists>a'. rowToActivity jp (activityToRow a) = Inr (Some a')
           \<and> (\<forall>k v. map_of a k = Some v \<and> cell (activityToRow a) k \<noteq> JStr []
                  \<longrightarrow> map_of a' k = Some v)
           \<and> (\<forall>k \<in> set [''category'', ''openHours'', ''address'', ''services'', ''description'',
                          ''userRating'', ''drivingMinutes'', ''transitMinutes'', ''distanceKm'',
                          ''userComment'', ''userRemoved''].
                  cell (activityToRow a) k = JStr [] \<longrightarrow> map_of a' k = None)"
proof -
  define c0 where "c0 = js_or (get_prop a ''url'') (JStr [])"
  define c1 where "c1 = js_or (get_prop a ''shortName'') (JStr [])"
  define c2 where "c2 = JStr (if truthy (get_prop a ''alive'') then ''true'' else ''false'')"
  define c3 where "c3 = js_or (get_prop a ''lastUpdated'') (JStr [])"
  define c4 where "c4 = js_or (get_prop a ''category'') (JStr [])"
  define c5 where "c5 = js_or (get_prop a ''openHours'') (JStr [])"
  define c6 where "c6 = js_or (get_prop a ''address'') (JStr [])"
  define c7 where "c7 = (if truthy (get_prop a ''services'')
                         then JSON_stringify (get_prop a ''services'') else JStr [])"
  define c8 where "c8 = js_or (get_prop a ''description'') (JStr [])"
  define c9 where "c9 = num_cell (get_prop a ''userRating'')"
  define c10 where "c10 = num_cell (get_prop a ''drivingMinutes'')"
  define c11 where "c11 = num_cell (get_prop a ''transitMinutes'')"
  define c12 where "c12 = num_cell (get_prop a ''distanceKm'')"
  define c13 where "c13 = js_or (get_prop a ''userComment'') (JStr [])"
  define c14 where "c14 = JStr (if truthy (get_prop a ''userRemoved'') then ''true'' else [])"
  note cdefs = c0_def c1_def c2_def c3_def c4_def c5_def c6_def c7_def c8_def c9_def c10_def
    c11_def c12_def c13_def c14_def
  have row: "activityToRow a = [c0, c1, c2, c3, c4, c5, c6, c7, c8, c9, c10, c11, c12, c13, c14]"
    unfolding cdefs by (rule activityToRow_cells)
  note vf = valid_activity_field[OF assms(1)]
  from assms(1) obtain u where u: "map_of a ''url'' = Some u"
    by (auto simp: valid_activity_def)
  from vf[OF u] obtain s where s: "u = JStr s" "s \<noteq> []"
    by (cases u) (auto simp: valid_field_def)
  have t0: "truthy c0"
    by (simp add: c0_def get_prop_def u s js_or_string truthy_string)
  have sv: "\<exists>w. parse_services jp c7 = Inr w" if "truthy c7"
  proof (cases "map_of a ''services''")
    case None
    with that show ?thesis
      by (simp add: c7_def get_prop_def truthy_def)
  next
    case (Some v)
    with that have "c7 = JStr (json_text v)"
      by (auto simp: c7_def get_prop_def JSON_stringify_def truthy_def split: if_splits)
    then show ?thesis
      by (simp add: parse_services_string(2))
  qed
  from rowToActivity_defined[of "[c0, c1, c2, c3, c4, c5, c6, c7, c8, c9, c10, c11, c12, c13, c14]" jp]
    t0 sv
  obtain a' where ra: "rowToActivity jp [c0, c1, c2, c3, c4, c5, c6, c7, c8, c9, c10, c11, c12, c13, c14]
                         = Inr (Some a')"
    by (auto simp: idx_cells)
  note f = rowToActivity_fields[OF ra, unfolded idx_cells]
  have str: "js_or (get_prop a k) (JStr []) = v"
    if "map_of a k = Some v" "is_str v" for k v
    using that by (cases v) (auto simp: get_prop_def is_str_def js_or_string)
  define Q where "Q k \<longleftrightarrow>
      (\<forall>v. map_of a k = Some v \<and> cell (activityToRow a) k \<noteq> JStr [] \<longrightarrow> map_of a' k = Some v)" for k
  have q_url: "Q ''url''"
    unfolding Q_def
  proof (intro allI impI, elim conjE)
    fix v assume m: "map_of a ''url'' = Some v" and c: "cell (activityToRow a) ''url'' \<noteq> JStr []"
    note v = vf[OF m]
    from m u have "v = u" by simp
    then show "map_of a' ''url'' = Some v"
      by (simp add: f(1) c0_def get_prop_def u s js_or_string)
  qed
  have q_shortName: "Q ''shortName''"
    unfolding Q_def
  proof (intro allI impI, elim conjE)
    fix v assume m: "map_of a ''shortName'' = Some v" and c: "cell (activityToRow a) ''shortName'' \<noteq> JStr []"
    note v = vf[OF m]
    from v have "is_str v" by (simp add: valid_field_def)
    from str[OF m this] have "c1 = v" by (simp add: c1_def)
    with \<open>is_str v\<close> show "map_of a' ''shortName'' = Some v"
      by (cases v) (auto simp: f(2) is_str_def js_or_string)
  qed
  have q_alive: "Q ''alive''"
    unfolding Q_def
  proof (intro allI impI, elim conjE)
    fix v assume m: "map_of a ''alive'' = Some v" and c: "cell (activityToRow a) ''alive'' \<noteq> JStr []"
    note v = vf[OF m]
    from v obtain b where "v = JBool b"
      by (cases v) (auto simp: valid_field_def)
    with m show "map_of a' ''alive'' = Some v"
      by (simp add: f(3) c2_def get_prop_def truthy_def not_true_blank)
  qed
  have q_lastUpdated: "Q ''lastUpdated''"
    unfolding Q_def
  proof (intro allI impI, elim conjE)
    fix v assume m: "map_of a ''lastUpdated'' = Some v" and c: "cell (activityToRow a) ''lastUpdated'' \<noteq> JStr []"
    note v = vf[OF m]
    from v have "is_str v" by (simp add: valid_field_def)
    from str[OF m this] have "c3 = v" by (simp add: c3_def)
    with \<open>is_str v\<close> show "map_of a' ''lastUpdated'' = Some v"
      by (cases v) (auto simp: f(4) is_str_def js_or_string)
  qed
  have q_category: "Q ''category''"
    unfolding Q_def
  proof (intro allI impI, elim conjE)
    fix v assume m: "map_of a ''category'' = Some v" and c: "cell (activityToRow a) ''category'' \<noteq> JStr []"
    note v = vf[OF m]
    from v have "is_str v" by (simp add: valid_field_def)
    from str[OF m this] have "c4 = v" by (simp add: c4_def)
    with \<open>is_str v\<close> c show "map_of a' ''category'' = Some v"
      by (cases v) (auto simp: f(5) is_str_def truthy_string row cell_row_simps)
  qed
  have q_openHours: "Q ''openHours''"
    unfolding Q_def
  proof (intro allI impI, elim conjE)
    fix v assume m: "map_of a ''openHours'' = Some v" and c: "cell (activityToRow a) ''openHours'' \<noteq> JStr []"
    note v = vf[OF m]
    from v have "is_str v" by (simp add: valid_field_def)
    from str[OF m this] have "c5 = v" by (simp add: c5_def)
    with \<open>is_str v\<close> c show "map_of a' ''openHours'' = Some v"
      by (cases v) (auto simp: f(6) is_str_def truthy_string row cell_row_simps)
  qed
  have q_address: "Q ''address''"
    unfolding Q_def
  proof (intro allI impI, elim conjE)
    fix v assume m: "map_of a ''address'' = Some v" and c: "cell (activityToRow a) ''address'' \<noteq> JStr []"
    note v = vf[OF m]
    from v have "is_str v" by (simp add: valid_field_def)
    from str[OF m this] have "c6 = v" by (simp add: c6_def)
    with \<open>is_str v\<close> c show "map_of a' ''address'' = Some v"
      by (cases v) (auto simp: f(7) is_str_def truthy_string row cell_row_simps)
  qed
  have q_services: "Q ''services''"
    unfolding Q_def
  proof (intro allI impI, elim conjE)
    fix v assume m: "map_of a ''services'' = Some v" and c: "cell (activityToRow a) ''services'' \<noteq> JStr []"
    note v = vf[OF m]
    from v obtain xs where xs: "v = JArr xs"
      by (cases v) (auto simp: valid_field_def)
    with m have c7: "c7 = JStr (json_text v)"
      by (simp add: c7_def get_prop_def truthy_def JSON_stringify_def)
    with c have "truthy c7"
      by (simp add: row cell_row_simps truthy_string)
    moreover from assms(2) m have "parse_services jp c7 = Inr v"
      by (simp add: c7 parse_services_string(1))
    ultimately show "map_of a' ''services'' = Some v"
      by (simp add: f(8))
  qed
  have q_description: "Q ''description''"
    unfolding Q_def
  proof (intro allI impI, elim conjE)
    fix v assume m: "map_of a ''description'' = Some v" and c: "cell (activityToRow a) ''description'' \<noteq> JStr []"
    note v = vf[OF m]
    from v have "is_str v" by (simp add: valid_field_def)
    from str[OF m this] have "c8 = v" by (simp add: c8_def)
    with \<open>is_str v\<close> c show "map_of a' ''description'' = Some v"
      by (cases v) (auto simp: f(9) is_str_def truthy_string row cell_row_simps)
  qed
  have q_userRating: "Q ''userRating''"
    unfolding Q_def
  proof (intro allI impI, elim conjE)
    fix v assume m: "map_of a ''userRating'' = Some v" and c: "cell (activityToRow a) ''userRating'' \<noteq> JStr []"
    note v = vf[OF m]
    from v obtain x where x: "v = JNum x" "is_integer_num x"
      by (cases v) (auto simp: valid_field_def)
    with m have "c9 = JStr (number_to_string x)"
      by (simp add: c9_def get_prop_def num_cell_def not_nullish_def)
    with c x show "map_of a' ''userRating'' = Some v"
      by (simp add: f(10) row cell_row_simps truthy_string parse_int10_round_trip)
  qed
  have q_drivingMinutes: "Q ''drivingMinutes''"
    unfolding Q_def
  proof (intro allI impI, elim conjE)
    fix v assume m: "map_of a ''drivingMinutes'' = Some v" and c: "cell (activityToRow a) ''drivingMinutes'' \<noteq> JStr []"
    note v = vf[OF m]
    from v obtain x where x: "v = JNum x" "is_integer_num x"
      by (cases v) (auto simp: valid_field_def)
    with m have "c10 = JStr (number_to_string x)"
      by (simp add: c10_def get_prop_def num_cell_def not_nullish_def)
    with c x show "map_of a' ''drivingMinutes'' = Some v"
      by (simp add: f(11) row cell_row_simps truthy_string parse_int10_round_trip)
  qed
  have q_transitMinutes: "Q ''transitMinutes''"
    unfolding Q_def
  proof (intro allI impI, elim conjE)
    fix v assume m: "map_of a ''transitMinutes'' = Some v" and c: "cell (activityToRow a) ''transitMinutes'' \<noteq> JStr []"
    note v = vf[OF m]
    from v obtain x where x: "v = JNum x" "is_integer_num x"
      by (cases v) (auto simp: valid_field_def)
    with m have "c11 = JStr (number_to_string x)"
      by (simp add: c11_def get_prop_def num_cell_def not_nullish_def)
    with c x show "map_of a' ''transitMinutes'' = Some v"
      by (simp add: f(12) row cell_row_simps truthy_string parse_int10_round_trip)
  qed
  have q_distanceKm: "Q ''distanceKm''"
    unfolding Q_def
  proof (intro allI impI, elim conjE)
    fix v assume m: "map_of a ''distanceKm'' = Some v" and c: "cell (activityToRow a) ''distanceKm'' \<noteq> JStr []"
    note v = vf[OF m]
    from v obtain x where x: "v = JNum x" "wf_num x"
      by (cases v) (auto simp: valid_field_def)
    with m have "c12 = JStr (number_to_string x)"
      by (simp add: c12_def get_prop_def num_cell_def not_nullish_def)
    with c x show "map_of a' ''distanceKm'' = Some v"
      by (simp add: f(13) row cell_row_simps truthy_string parse_float_round_trip)
  qed
  have q_userComment: "Q ''userComment''"
    unfolding Q_def
  proof (intro allI impI, elim conjE)
    fix v assume m: "map_of a ''userComment'' = Some v" and c: "cell (activityToRow a) ''userComment'' \<noteq> JStr []"
    note v = vf[OF m]
    from v have "is_str v" by (simp add: valid_field_def)
    from str[OF m this] have "c13 = v" by (simp add: c13_def)
    with \<open>is_str v\<close> c show "map_of a' ''userComment'' = Some v"
      by (cases v) (auto simp: f(14) is_str_def truthy_string row cell_row_simps)
  qed
  have q_userRemoved: "Q ''userRemoved''"
    unfolding Q_def
  proof (intro allI impI, elim conjE)
    fix v assume m: "map_of a ''userRemoved'' = Some v" and c: "cell (activityToRow a) ''userRemoved'' \<noteq> JStr []"
    note v = vf[OF m]
    from v obtain b where b: "v = JBool b"
      by (cases v) (auto simp: valid_field_def)
    with m c have "b"
      by (auto simp: row cell_row_simps c14_def get_prop_def truthy_def split: if_splits)
    with m b show "map_of a' ''userRemoved'' = Some v"
      by (simp add: f(15) c14_def get_prop_def truthy_def not_true_blank)
  qed
  have "list_all Q HEADER_ROW"
    unfolding HEADER_ROW_def
    by (simp only: list.pred_inject q_url q_shortName q_alive q_lastUpdated q_category q_openHours
        q_address q_services q_description q_userRating q_drivingMinutes q_transitMinutes
        q_distanceKm q_userComment q_userRemoved simp_thms)
  then have allQ: "\<forall>k \<in> set HEADER_ROW. Q k"
    by (simp only: list_all_iff)
  have keep: "map_of a' k = Some v"
    if m: "map_of a k = Some v" and c: "cell (activityToRow a) k \<noteq> JStr []" for k v
  proof -
    from allQ valid_field_key[OF vf[OF m]] have "Q k" by (rule bspec)
    with m c show ?thesis unfolding Q_def by blast
  qed
  define B where "B k \<longleftrightarrow> (cell (activityToRow a) k = JStr [] \<longrightarrow> map_of a' k = None)" for k
  have b4: "B ''category''" by (simp add: B_def row cell_row_simps f(5) truthy_string)
  have b5: "B ''openHours''" by (simp add: B_def row cell_row_simps f(6) truthy_string)
  have b6: "B ''address''" by (simp add: B_def row cell_row_simps f(7) truthy_string)
  have b7: "B ''services''" by (simp add: B_def row cell_row_simps f(8) truthy_string)
  have b8: "B ''description''" by (simp add: B_def row cell_row_simps f(9) truthy_string)
  have b9: "B ''userRating''" by (simp add: B_def row cell_row_simps f(10) truthy_string)
  have b10: "B ''drivingMinutes''" by (simp add: B_def row cell_row_simps f(11) truthy_string)
  have b11: "B ''transitMinutes''" by (simp add: B_def row cell_row_simps f(12) truthy_string)
  have b12: "B ''distanceKm''" by (simp add: B_def row cell_row_simps f(13) truthy_string)
  have b13: "B ''userComment''" by (simp add: B_def row cell_row_simps f(14) truthy_string)
  have b14: "B ''userRemoved''" by (simp add: B_def row cell_row_simps f(15) not_true_blank)
  have "list_all B [''category'', ''openHours'', ''address'', ''services'', ''description'',
                  ''userRating'', ''drivingMinutes'', ''transitMinutes'', ''distanceKm'',
                  ''userComment'', ''userRemoved'']"
    by (simp only: list.pred_inject b4 b5 b6 b7 b8 b9 b10 b11 b12 b13 b14 simp_thms)
  then have blank: "\<forall>k \<in> set [''category'', ''openHours'', ''address'', ''services'', ''description'',
                  ''userRating'', ''drivingMinutes'', ''transitMinutes'', ''distanceKm'',
                  ''userComment'', ''userRemoved'']. B k"
    by (simp only: list_all_iff)
  have ra': "rowToActivity jp (activityToRow a) = Inr (Some a')"
    by (simp only: row ra)
  from keep have k: "\<forall>k v. map_of a k = Some v \<and> cell (activityToRow a) k \<noteq> JStr []
                  \<longrightarrow> map_of a' k = Some v"
    by blast
  from ra' k blank[unfolded B_def] show ?thesis
    by (intro exI[of _ a'] conjI)
qed

theorem codec_round_trip_witness:
  "valid_activity museum_ex
   \<and> activityToRow museum_ex =
       [JStr ''https://m'', JStr ''Museum'', JStr ''false'', JStr ''2024-03-03'', JStr [], JStr [],
        JStr [], JStr (json_text services_ex), JStr [], JStr ''5'', JStr ''120'', JStr [],
        JStr ''12.5'', JStr [], JStr []]
   \<and> rowToActivity json_ex (activityToRow museum_ex) = Inr (Some museum_back_ex)
   \<and> map_of museum_back_ex ''distanceKm'' = Some (JNum (Dec 125 (- 1)))
   \<and> map_of museum_back_ex ''services'' = Some services_ex
   \<and> map_of museum_back_ex ''userRemoved'' = None"
proof -
  have v: "valid_activity museum_ex"
    by code_simp
  have sm: "map_of museum_ex ''services'' = Some services_ex"
    by code_simp
  have h: "\<forall>v. map_of museum_ex ''services'' = Some v \<longrightarrow> json_ex (json_text v) = Some v"
    by (simp add: sm json_ex_def)
  have r: "activityToRow museum_ex =
       [JStr ''https://m'', JStr ''Museum'', JStr ''false'', JStr ''2024-03-03'', JStr [], JStr [],
        JStr [], JStr (json_text services_ex), JStr [], JStr ''5'', JStr ''120'', JStr [],
        JStr ''12.5'', JStr [], JStr []]"
    by code_simp
  have d: "rowToActivity json_ex (activityToRow museum_ex) = Inr (Some museum_back_ex)"
    by code_simp
  have m: "map_of museum_ex ''distanceKm'' = Some (JNum (Dec 125 (- 1)))"
    by code_simp
  have c: "cell (activityToRow museum_ex) ''distanceKm'' \<noteq> JStr []"
    "cell (activityToRow museum_ex) ''services'' \<noteq> JStr []"
    "cell (activityToRow museum_ex) ''userRemoved'' = JStr []"
    by code_simp+
  from codec_round_trip[OF v h] d
  have k: "\<forall>k v. map_of museum_ex k = Some v \<and> cell (activityToRow museum_ex) k \<noteq> JStr []
                  \<longrightarrow> map_of museum_back_ex k = Some v"
    and b: "\<forall>k \<in> set [''category'', ''openHours'', ''address'', ''services'', ''description'',
                          ''userRating'', ''drivingMinutes'', ''transitMinutes'', ''distanceKm'',
                          ''userComment'', ''userRemoved''].
                  cell (activityToRow museum_ex) k = JStr [] \<longrightarrow> map_of museum_back_ex k = None"
    by auto
  from k m c(1) have "map_of museum_back_ex ''distanceKm'' = Some (JNum (Dec 125 (- 1)))"
    by blast
  moreover from k sm c(2) have "map_of museum_back_ex ''services'' = Some services_ex"
    by blast
  moreover from b c(3) have "map_of museum_back_ex ''userRemoved'' = None"
    by simp
  ultimately show ?thesis
    using v r d by simp
qed

end
